theory Spec2Isabelle
  imports Main "HOL-Library.Word"
begin

unbundle bit_operations_syntax

chapter \<open>Definitions: the embedding of the kernel sources\<close>

section \<open>Machine integers and error codes\<close>

type_synonym u8 = "8 word"
type_synonym u16 = "16 word"
type_synonym u32 = "32 word"
type_synonym u64 = "64 word"

text \<open>
  Modelled from the spec: error.h is not among the sources. The spec names a closed set
  of small negative error codes, which the kernel functions return negated. They are kept
  symbolic here, so that no theorem depends on their numeric values: a function that returns
  \<open>long\<close> or \<open>int\<close> returns \<open>Err e\<close> for \<open>-e\<close> and \<open>Val n\<close> for a
  non-negative result.
\<close>

datatype errno = EINVAL | ENOTSUP | EBUSY | ENOENT | EMFILE | EPIPE | EIO | ENODATABLKS

datatype 'a ret = Err errno | Val 'a

definition UINT64_MAX :: u64 where
  "UINT64_MAX = - 1"

section \<open>timer.c: the sleep list and the timer interrupt\<close>

text \<open>
  An alarm (struct alarm) has a wake time in ticks and a condition with a name. Alarms are
  identified by their address. The singly linked sleep list is the list of the addresses of
  its alarms in link order; an alarm that is put to sleep is not on the list already. The
  calls into thread.c (\<open>condition_wait\<close>, \<open>condition_broadcast\<close>) are recorded in an
  event log, in call order. \<open>rdtime()\<close> reads the field \<open>mtime\<close>; one call of a
  function of this section runs at one instant. \<open>stcmp\<close> is the compare register
  written by \<open>set_stcmp\<close>, \<open>stie\<close> the timer bit of \<open>sie\<close>
  (\<open>csrs_sie\<close>/\<open>csrc_sie\<close> with \<open>RISCV_SIE_STIE\<close>).
\<close>

record alarm =
  twake :: u64
  cond_name :: string

datatype timer_event = CondWait nat | CondBroadcast nat

record timer_state =
  mtime :: u64
  alarms :: "nat \<Rightarrow> alarm"
  sleep_list :: "nat list"
  stcmp :: u64
  stie :: bool
  events :: "timer_event list"

text \<open>The walk of \<open>alarm_sleep\<close> behind the head: \<open>prev\<close> and \<open>curr\<close> advance while
  \<open>curr->twake < al->twake\<close>, then \<open>al\<close> is linked between them.\<close>

fun sleep_insert :: "(nat \<Rightarrow> alarm) \<Rightarrow> nat \<Rightarrow> nat list \<Rightarrow> nat list" where
  "sleep_insert A al [] = [al]"
| "sleep_insert A al (c # cs) =
     (if twake (A c) < twake (A al) then c # sleep_insert A al cs else al # c # cs)"

definition alarm_sleep :: "nat \<Rightarrow> u64 \<Rightarrow> timer_state \<Rightarrow> timer_state" where
  "alarm_sleep al tcnt s =
     (let now = mtime s;
          tw = (if UINT64_MAX - twake (alarms s al) < tcnt then UINT64_MAX
                else twake (alarms s al) + tcnt);
          A = (alarms s)(al := (alarms s al)\<lparr>twake := tw\<rparr>);
          s1 = s\<lparr>alarms := A\<rparr>
      in if tw < now then s1
         else
           let l = (case sleep_list s1 of
                      [] \<Rightarrow> [al]
                    | h # rest \<Rightarrow>
                        if tw < twake (A h) then al # h # rest
                        else h # sleep_insert A al rest);
               s2 = s1\<lparr>sleep_list := l, stcmp := twake (A (hd l)), stie := True\<rparr>
           in if cond_name (A al) \<noteq> ''interrupter''
              then s2\<lparr>events := events s2 @ [CondWait al]\<rparr>
              else s2)"

text \<open>The list that the three branches of \<open>alarm_sleep\<close> leave: the alarm alone on an
  empty list, in front of a head that wakes later, and behind the head otherwise.\<close>

definition sleep_enqueue :: "(nat \<Rightarrow> alarm) \<Rightarrow> nat \<Rightarrow> nat list \<Rightarrow> nat list" where
  "sleep_enqueue A al l =
     (case l of
        [] \<Rightarrow> [al]
      | h # rest \<Rightarrow>
          if twake (A al) < twake (A h) then al # h # rest else h # sleep_insert A al rest)"

definition alarm_reset :: "nat \<Rightarrow> timer_state \<Rightarrow> timer_state" where
  "alarm_reset al s = s\<lparr>alarms := (alarms s)(al := (alarms s al)\<lparr>twake := mtime s\<rparr>)\<rparr>"

text \<open>\<open>TIMER_FREQ\<close> comes from conf.h, which is not among the sources: it is the
  parameter \<open>F\<close>.\<close>

definition alarm_sleep_ms :: "u64 \<Rightarrow> nat \<Rightarrow> u64 \<Rightarrow> timer_state \<Rightarrow> timer_state" where
  "alarm_sleep_ms F al ms s = alarm_sleep al (ms * (F div 1000)) s"

text \<open>An alarm is expired when the loop test of the interrupt handler,
  \<open>sleep_list->twake < now\<close>, holds for it.\<close>

definition expired :: "timer_state \<Rightarrow> nat \<Rightarrow> bool" where
  "expired s a = (twake (alarms s a) < mtime s)"

definition expired_count :: "timer_state \<Rightarrow> nat" where
  "expired_count s = length (filter (\<lambda>a. twake (alarms s a) < mtime s) (sleep_list s))"

lemma sat_add_ge: "(tw::u64) \<le> (if UINT64_MAX - tw < t then UINT64_MAX else tw + t)"
proof (cases "UINT64_MAX - tw < t")
  case True
  then show ?thesis by (simp add: UINT64_MAX_def)
next
  case False
  then have "t \<le> - 1 - tw" by (simp add: UINT64_MAX_def not_less)
  then have "unat t \<le> unat (- 1 - tw)" by (simp add: word_le_nat_alt)
  moreover have "unat (- 1 - tw) = 2 ^ 64 - 1 - unat tw"
    by (subst unat_sub) (simp_all add: unsigned_minus_1_eq_mask mask_eq_exp_minus_1)
  ultimately have "unat tw + unat t < 2 ^ 64"
    using unsigned_less [of tw, where ?'a=nat] by simp
  then have "tw \<le> tw + t" by (simp add: no_olen_add_nat)
  with False show ?thesis by simp
qed

lemma filter_len_mono:
  "(\<And>x. P' x \<Longrightarrow> P x) \<Longrightarrow> length (filter P' xs) \<le> length (filter P xs)"
  by (induction xs) auto

lemma filter_sleep_insert:
  "length (filter P (sleep_insert A al xs)) = length (filter P xs) + (if P al then 1 else 0)"
  by (induction xs) auto

lemma expired_count_alarm_sleep: "expired_count (alarm_sleep al t s) \<le> expired_count s"
proof -
  define tw where "tw = (if UINT64_MAX - twake (alarms s al) < t then UINT64_MAX
                else twake (alarms s al) + t)"
  define A where "A = (alarms s)(al := (alarms s al)\<lparr>twake := tw\<rparr>)"
  have ge: "twake (alarms s al) \<le> tw" unfolding tw_def by (rule sat_add_ge)
  have mono: "\<And>x. twake (A x) < mtime s \<Longrightarrow> twake (alarms s x) < mtime s"
    using ge by (auto simp: A_def split: if_splits)
  have le: "length (filter (\<lambda>a. twake (A a) < mtime s) xs)
          \<le> length (filter (\<lambda>a. twake (alarms s a) < mtime s) xs)" for xs
    by (rule filter_len_mono) (rule mono)
  show ?thesis
  proof (cases "tw < mtime s")
    case True
    then show ?thesis
      using le [of "sleep_list s"]
      by (simp add: alarm_sleep_def Let_def expired_count_def tw_def [symmetric] A_def [symmetric])
  next
    case False
    then have nal: "\<not> twake (A al) < mtime s" by (simp add: A_def)
    show ?thesis
      using False le [of "sleep_list s"] le [of "tl (sleep_list s)"] nal
      by (auto simp: alarm_sleep_def Let_def expired_count_def tw_def [symmetric] A_def [symmetric]
          filter_sleep_insert split: list.splits)
  qed
qed

text \<open>
  The loop of \<open>handle_timer_interrupt\<close>. \<open>I\<close> is the address of the global
  \<open>interruptAlrm\<close>. The loop ends because every round takes an expired alarm off the
  list and \<open>alarm_sleep\<close> links no expired alarm.
\<close>

function isr_loop :: "u64 \<Rightarrow> nat \<Rightarrow> timer_state \<Rightarrow> timer_state" where
  "isr_loop F I s =
     (case sleep_list s of
        [] \<Rightarrow> s
      | h # rest \<Rightarrow>
          if twake (alarms s h) < mtime s then
            (if cond_name (alarms s h) = ''interrupter''
             then isr_loop F I (alarm_sleep_ms F I 20 ((alarm_reset h s)\<lparr>sleep_list := rest\<rparr>))
             else isr_loop F I (s\<lparr>events := events s @ [CondBroadcast h], sleep_list := rest\<rparr>))
          else s)"
  by pat_completeness auto
termination
proof (relation "measure (\<lambda>(F, I, s). expired_count s)")
  show "wf (measure (\<lambda>(F, I, s). expired_count s))" by simp
next
  fix F :: u64 and I :: nat and s :: timer_state and h rest
  assume l: "sleep_list s = h # rest" and e: "twake (alarms s h) < mtime s"
  let ?s1 = "(alarm_reset h s)\<lparr>sleep_list := rest\<rparr>"
  have "expired_count ?s1 \<le> length (filter (\<lambda>a. twake (alarms s a) < mtime s) rest)"
    unfolding expired_count_def
    by (simp add: alarm_reset_def) (rule filter_len_mono, auto)
  also have "\<dots> < expired_count s" using l e by (simp add: expired_count_def)
  finally have lt: "expired_count ?s1 < expired_count s" .
  have "expired_count (alarm_sleep_ms F I 20 ?s1) \<le> expired_count ?s1"
    by (simp add: alarm_sleep_ms_def expired_count_alarm_sleep)
  with lt show "((F, I, alarm_sleep_ms F I 20 ?s1), (F, I, s)) \<in> measure (\<lambda>(F, I, s). expired_count s)"
    by simp
next
  fix F :: u64 and I :: nat and s :: timer_state and h rest
  assume l: "sleep_list s = h # rest" and e: "twake (alarms s h) < mtime s"
  show "((F, I, s\<lparr>events := events s @ [CondBroadcast h], sleep_list := rest\<rparr>), (F, I, s))
        \<in> measure (\<lambda>(F, I, s). expired_count s)"
    using l e by (simp add: expired_count_def)
qed

declare isr_loop.simps [simp del]

definition handle_timer_interrupt :: "u64 \<Rightarrow> nat \<Rightarrow> timer_state \<Rightarrow> timer_state" where
  "handle_timer_interrupt F I s =
     (let s' = isr_loop F I s
      in case sleep_list s' of
           [] \<Rightarrow> s'\<lparr>stie := False\<rparr>
         | h # rest \<Rightarrow> s'\<lparr>stcmp := twake (alarms s' h)\<rparr>)"

text \<open>The wake time that the handler gives the preemption alarm: the alarm is reset to the
  current time and put to sleep for 20 ms, which \<open>alarm_sleep\<close> adds with saturation.
  \<open>rearmed\<close> is the table of alarms with that wake time for the alarm \<open>I\<close>.\<close>

definition rearm_time :: "u64 \<Rightarrow> timer_state \<Rightarrow> u64" where
  "rearm_time F s =
     (if UINT64_MAX - mtime s < 20 * (F div 1000) then UINT64_MAX
      else mtime s + 20 * (F div 1000))"

definition rearmed :: "u64 \<Rightarrow> nat \<Rightarrow> timer_state \<Rightarrow> nat \<Rightarrow> alarm" where
  "rearmed F I s = (alarms s)(I := (alarms s I)\<lparr>twake := rearm_time F s\<rparr>)"

text \<open>Two sleepers: alarm 1 wakes at tick 3, alarm 2 at tick 10; the time is 10.\<close>

definition two_sleepers :: timer_state where
  "two_sleepers =
     \<lparr>mtime = 10,
      alarms = (\<lambda>a. \<lparr>twake = (if a = 1 then 3 else 10), cond_name = ''sleep''\<rparr>),
      sleep_list = [1, 2], stcmp = 3, stie = True, events = []\<rparr>"

text \<open>One sleeper whose wake time is the current time exactly.\<close>

definition due_now :: timer_state where
  "due_now =
     \<lparr>mtime = 5, alarms = (\<lambda>a. \<lparr>twake = 5, cond_name = ''sleep''\<rparr>),
      sleep_list = [1], stcmp = 5, stie = True, events = []\<rparr>"

text \<open>The preemption alarm, alarm 0, and two sleepers at time 10: the preemption alarm was
  due at tick 1, alarm 1 at tick 3, and alarm 2 is due at tick 10.\<close>

definition preempt_due :: timer_state where
  "preempt_due =
     \<lparr>mtime = 10,
      alarms = (\<lambda>a. if a = 0 then \<lparr>twake = 1, cond_name = ''interrupter''\<rparr>
                    else \<lparr>twake = (if a = 1 then 3 else 10), cond_name = ''sleep''\<rparr>),
      sleep_list = [0, 1, 2], stcmp = 1, stie = True, events = []\<rparr>"

section \<open>io.c: reference-counted endpoints\<close>

text \<open>
  An endpoint (struct io) is identified by its address; address 0 is \<open>NULL\<close>. It has a
  pointer to an operation table (struct iointf, declared in ioimpl.h) and a reference count
  (unsigned long). Of the operation table this section needs the \<open>close\<close> entry only:
  \<open>seekio_close\<close>, or some other close function, of which the model records the call.
  The state also records, per endpoint, the calls of \<open>ioinit1\<close>, \<open>ioaddref\<close> and
  \<open>ioclose\<close> made on it, in call order. A failed \<open>assert\<close> is a panic.
\<close>

datatype panic = AssertionFailed | NullDeref | DivByZero | OutOfBounds

datatype close_fn = seekio_close_fn | other_close_fn

record io =
  intf_close :: "close_fn option option"
  refcnt :: u64

datatype io_call = Init1 nat | Addref nat | Close nat

record seekio =
  bkgio :: nat
  pos :: u64
  end_pos :: u64
  blksz :: u32

record io_state =
  ios :: "nat \<Rightarrow> io"
  sios :: "nat \<Rightarrow> seekio"
  close_invoked :: "nat list"
  kfreed :: "nat list"
  io_calls :: "io_call list"


definition ioinit0 :: "nat \<Rightarrow> close_fn option option \<Rightarrow> io_state \<Rightarrow> panic + io_state" where
  "ioinit0 a intf s =
     (if a = 0 \<or> intf = None then Inl AssertionFailed
      else Inr (s\<lparr>ios := (ios s)(a := \<lparr>intf_close = intf, refcnt = 0\<rparr>)\<rparr>))"

definition iorefcnt :: "nat \<Rightarrow> io_state \<Rightarrow> panic + u64" where
  "iorefcnt a s = (if a = 0 then Inl AssertionFailed else Inr (refcnt (ios s a)))"


text \<open>
  \<open>ioclose\<close>, with \<open>seekio_close\<close> inlined where the operation table dispatches to it:
  \<open>sio->bkgio->refcnt--; ioclose(sio->bkgio); kfree(sio);\<close>. The recursion follows the
  \<open>bkgio\<close> pointers, so the function is partial: \<open>None\<close> is a call that does not return.
\<close>

partial_function (option) ioclose :: "nat \<Rightarrow> io_state \<Rightarrow> (panic + io_state) option" where
  "ioclose a s =
     (if a = 0 \<or> intf_close (ios s a) = None \<or> refcnt (ios s a) = 0
      then Some (Inl AssertionFailed)
      else
        let s1 = s\<lparr>ios := (ios s)(a := (ios s a)\<lparr>refcnt := refcnt (ios s a) - 1\<rparr>),
                   io_calls := io_calls s @ [Close a]\<rparr>
        in if refcnt (ios s1 a) = 0 \<and> intf_close (ios s1 a) \<noteq> Some None
           then
             let s2 = s1\<lparr>close_invoked := close_invoked s1 @ [a]\<rparr>
             in if intf_close (ios s2 a) = Some (Some seekio_close_fn)
                then
                  let b = bkgio (sios s2 a);
                      s3 = s2\<lparr>ios := (ios s2)(b := (ios s2 b)\<lparr>refcnt := refcnt (ios s2 b) - 1\<rparr>)\<rparr>
                  in Option.bind (ioclose b s3)
                       (\<lambda>r. case r of
                               Inl p \<Rightarrow> Some (Inl p)
                             | Inr s4 \<Rightarrow> Some (Inr (s4\<lparr>kfreed := kfreed s4 @ [a]\<rparr>)))
                else Some (Inr s2)
           else Some (Inr s1))"






section \<open>io.c: the seekable adapter\<close>

text \<open>
  The operations of the backing endpoint that the adapter calls, as entries of its operation
  table (\<open>None\<close> is a \<open>NULL\<close> entry). A positional read or write is given the position
  and the length and returns a \<open>long\<close>; a control call is given the command and the value
  behind \<open>arg\<close> and returns an \<open>int\<close> and the value it leaves behind \<open>arg\<close>. The data
  buffers are not modelled. \<open>long\<close> and \<open>unsigned long long\<close> are 64-bit words,
  \<open>int\<close> is a 32-bit word; \<open><s\<close> is the signed comparison.
\<close>

datatype ioctl_cmd = IOCTL_GETBLKSZ | IOCTL_GETEND | IOCTL_SETEND | IOCTL_GETPOS | IOCTL_SETPOS

record iointf =
  readat :: "(u64 \<Rightarrow> u64 \<Rightarrow> u64 ret) option"
  writeat :: "(u64 \<Rightarrow> u64 \<Rightarrow> u64 ret) option"
  cntl :: "(ioctl_cmd \<Rightarrow> u64 \<Rightarrow> u32 ret \<times> u64) option"

definition ioreadat :: "iointf \<Rightarrow> u64 \<Rightarrow> u64 \<Rightarrow> u64 ret" where
  "ioreadat bk p bufsz =
     (case readat bk of
        None \<Rightarrow> Err ENOTSUP
      | Some f \<Rightarrow> if bufsz <s 0 then Err EINVAL else f p bufsz)"

definition iowriteat :: "iointf \<Rightarrow> u64 \<Rightarrow> u64 \<Rightarrow> u64 ret" where
  "iowriteat bk p len =
     (case writeat bk of
        None \<Rightarrow> Err ENOTSUP
      | Some f \<Rightarrow> if len <s 0 then Err EINVAL else f p len)"

definition ioctl :: "iointf \<Rightarrow> ioctl_cmd \<Rightarrow> u64 \<Rightarrow> u32 ret \<times> u64" where
  "ioctl bk cmd arg =
     (case cntl bk of
        Some f \<Rightarrow> f cmd arg
      | None \<Rightarrow> if cmd = IOCTL_GETBLKSZ then (Val 1, arg) else (Err ENOTSUP, arg))"

text \<open>\<open>(rcnt < 0) ? 0 : rcnt\<close>\<close>

definition count_of :: "u64 ret \<Rightarrow> u64" where
  "count_of r = (case r of Err _ \<Rightarrow> 0 | Val n \<Rightarrow> n)"

text \<open>\<open>~(sio->blksz - 1)\<close> is computed in \<open>int\<close> and converted to \<open>long\<close> for the
  \<open>&=\<close>.\<close>

definition blk_mask :: "u32 \<Rightarrow> u64" where
  "blk_mask b = scast (NOT (b - 1))"

definition seekio_read :: "iointf \<Rightarrow> seekio \<Rightarrow> u64 \<Rightarrow> u64 ret \<times> seekio" where
  "seekio_read bk sio bufsz0 =
     (let p = pos sio; e = end_pos sio;
          bufsz = (if e - p < bufsz0 then e - p else bufsz0)
      in if bufsz = 0 then (Val 0, sio)
         else if bufsz <s scast (blksz sio) then (Err EINVAL, sio)
         else
           let rcnt = ioreadat bk p (bufsz AND blk_mask (blksz sio))
           in (rcnt, sio\<lparr>pos := p + count_of rcnt\<rparr>))"

definition seekio_write :: "iointf \<Rightarrow> seekio \<Rightarrow> u64 \<Rightarrow> u64 ret \<times> seekio" where
  "seekio_write bk sio len0 =
     (let p = pos sio; e = end_pos sio
      in if len0 = 0 then (Val 0, sio)
         else if len0 <s scast (blksz sio) then (Err EINVAL, sio)
         else
           let len = len0 AND blk_mask (blksz sio)
           in if e - p < len then
                (if UINT64_MAX - p < len then (Err EINVAL, sio)
                 else
                   case ioctl bk IOCTL_SETEND (p + len) of
                     (Err c, _) \<Rightarrow> (Err c, sio)
                   | (Val r, e') \<Rightarrow>
                       if r \<noteq> 0 then (Val (scast r), sio)
                       else
                         let wcnt = iowriteat bk p len
                         in (wcnt, sio\<lparr>end_pos := e', pos := p + count_of wcnt\<rparr>))
              else
                let wcnt = iowriteat bk p len
                in (wcnt, sio\<lparr>pos := p + count_of wcnt\<rparr>))"

text \<open>A backing endpoint that transfers every byte it is asked for and accepts every
  set-end, and an adapter over it with 512-byte blocks, at position 0 of 4096 bytes.\<close>

definition willing_backing :: iointf where
  "willing_backing =
     \<lparr>readat = Some (\<lambda>p n. Val n), writeat = Some (\<lambda>p n. Val n),
      cntl = Some (\<lambda>c a. (Val 0, a))\<rparr>"

definition adapter512 :: seekio where
  "adapter512 = \<lparr>bkgio = 1, pos = 0, end_pos = 4096, blksz = 512\<rparr>"

section \<open>io.c: the pipe\<close>

text \<open>
  Modelled from the spec: memory.h is not among the sources. \<open>PAGE_SIZE\<close> is the size of
  the page that backs a pipe and of a page frame, 4096 bytes in the Sv39 scheme of the
  three-level page table (\<open>PAGE_ORDER\<close> 12).
\<close>

definition PAGE_SIZE :: nat where
  "PAGE_SIZE = 4096"

definition PAGE_ORDER :: nat where
  "PAGE_ORDER = 12"



text \<open>The \<open>io\<close> argument of a pipe operation: \<open>NULL\<close>, the read endpoint of the pipe,
  its write endpoint, or an endpoint with another operation table.\<close>

datatype pipe_io = NullIO | ReadIO | WriteIO | OtherIO










section \<open>memory.c: the physical page pool\<close>

text \<open>
  The free pages are kept in a singly linked list of chunks (struct page_chunk); the header
  of a chunk is stored in its first page, so the address of a list node is the address of
  the chunk. The list is modelled by the list of its chunks in link order, each with its
  address and its page count. Address 0 is \<open>NULL\<close>. Reading through a null pointer is
  undefined in C; the model reports it as the fault \<open>NullDeref\<close>.
\<close>

type_synonym chunk = "u64 \<times> u64"

text \<open>First loop of \<open>alloc_phys_pages\<close>: the first chunk with \<open>pagecnt == cnt\<close> is
  unlinked and returned.\<close>

fun exact_fit :: "u64 \<Rightarrow> chunk list \<Rightarrow> (u64 \<times> chunk list) option" where
  "exact_fit cnt [] = None"
| "exact_fit cnt ((a, n) # cs) =
     (if n = cnt then Some (a, cs)
      else case exact_fit cnt cs of
             None \<Rightarrow> None
           | Some (r, cs') \<Rightarrow> Some (r, (a, n) # cs'))"

text \<open>Second loop: \<open>target\<close> is the first chunk of the least page count among the chunks
  with \<open>pagecnt > cnt\<close>; it is given by its position in the list, \<open>None\<close> is
  \<open>NULL\<close>.\<close>

fun best_fit :: "u64 \<Rightarrow> chunk list \<Rightarrow> nat \<Rightarrow> chunk list \<Rightarrow> nat option \<Rightarrow> nat option" where
  "best_fit cnt all i [] target = target"
| "best_fit cnt all i ((a, n) # cs) target =
     best_fit cnt all (Suc i) cs
       (if cnt < n then
          (case target of
             None \<Rightarrow> Some i
           | Some t \<Rightarrow> if n < snd (all ! t) then Some i else Some t)
        else target)"

definition alloc_phys_pages :: "u32 \<Rightarrow> chunk list \<Rightarrow> panic + (u64 \<times> chunk list)" where
  "alloc_phys_pages cnt cs =
     (case exact_fit (ucast cnt) cs of
        Some (a, cs') \<Rightarrow> Inr (a, cs')
      | None \<Rightarrow>
          (case best_fit (ucast cnt) cs 0 cs None of
             None \<Rightarrow> Inl NullDeref
           | Some t \<Rightarrow>
               let (a, n) = cs ! t
               in Inr (a, cs[t := (a + ucast cnt * of_nat PAGE_SIZE, n - ucast cnt)])))"

text \<open>The walk of \<open>free_phys_pages\<close> behind the head.\<close>

fun chunk_insert :: "chunk \<Rightarrow> chunk list \<Rightarrow> chunk list" where
  "chunk_insert c [] = [c]"
| "chunk_insert c (d # ds) = (if fst d < fst c then d # chunk_insert c ds else c # d # ds)"

definition free_list_insert :: "u64 \<Rightarrow> u32 \<Rightarrow> chunk list \<Rightarrow> chunk list" where
  "free_list_insert pp cnt cs =
     (if pp = 0 then cs
      else if cnt = 0 then cs
      else case cs of
             [] \<Rightarrow> [(pp, ucast cnt)]
           | d # ds \<Rightarrow>
               if pp < fst d then (pp, ucast cnt) # d # ds
               else d # chunk_insert (pp, ucast cnt) ds)"

section \<open>memory.c: page tables and the user page fault\<close>

text \<open>
  A page-table entry (struct pte) with its \<open>flags\<close> and \<open>ppn\<close> fields; the other fields
  are zero in every entry the code builds. The flag bits are those of the RISC-V privileged
  architecture, which riscv.h (not among the sources) names \<open>PTE_V\<close> to \<open>PTE_D\<close>. A page
  table is the page at a physical address looked at as 512 entries; the frames on the free
  list are not looked at as tables. \<open>satp\<close> is the address-space register.
\<close>

record pte =
  flags :: u8
  ppn :: u64

definition PTE_V :: u8 where "PTE_V = 1"
definition PTE_R :: u8 where "PTE_R = 2"
definition PTE_W :: u8 where "PTE_W = 4"
definition PTE_X :: u8 where "PTE_X = 8"
definition PTE_U :: u8 where "PTE_U = 16"
definition PTE_G :: u8 where "PTE_G = 32"
definition PTE_A :: u8 where "PTE_A = 64"
definition PTE_D :: u8 where "PTE_D = 128"

record mem_state =
  free_chunk_list :: "chunk list"
  ptabs :: "u64 \<Rightarrow> nat \<Rightarrow> pte"
  satp :: u64

definition PTE_VALID :: "pte \<Rightarrow> bool" where
  "PTE_VALID e = (flags e AND PTE_V \<noteq> 0)"

definition null_pte :: pte where
  "null_pte = \<lparr>flags = 0, ppn = 0\<rparr>"

definition pagenum :: "u64 \<Rightarrow> u64" where
  "pagenum p = drop_bit PAGE_ORDER p"

definition pageptr :: "u64 \<Rightarrow> u64" where
  "pageptr n = push_bit PAGE_ORDER n"

definition leaf_pte :: "u64 \<Rightarrow> u8 \<Rightarrow> pte" where
  "leaf_pte pp rwxug_flags =
     \<lparr>flags = rwxug_flags OR PTE_A OR PTE_D OR PTE_V, ppn = take_bit 44 (pagenum pp)\<rparr>"

definition ptab_pte :: "u64 \<Rightarrow> u8 \<Rightarrow> pte" where
  "ptab_pte pt g_flag = \<lparr>flags = g_flag OR PTE_V, ppn = take_bit 44 (pagenum pt)\<rparr>"

definition mtag_to_ptab :: "u64 \<Rightarrow> u64" where
  "mtag_to_ptab mtag = drop_bit 8 (push_bit 20 mtag)"

definition active_space_ptab :: "mem_state \<Rightarrow> u64" where
  "active_space_ptab s = mtag_to_ptab (satp s)"

definition wellformed :: "u64 \<Rightarrow> bool" where
  "wellformed vma = (let bits = signed_drop_bit 38 vma in bits = 0 \<or> bits + 1 = 0)"

definition ROUND_DOWN :: "u64 \<Rightarrow> u64" where
  "ROUND_DOWN vma = vma div of_nat PAGE_SIZE * of_nat PAGE_SIZE"

definition VPN :: "u64 \<Rightarrow> u64" where
  "VPN vma = vma div of_nat PAGE_SIZE"

definition VPN2 :: "u64 \<Rightarrow> nat" where
  "VPN2 vma = unat (drop_bit 18 (VPN vma) mod 512)"

definition VPN1 :: "u64 \<Rightarrow> nat" where
  "VPN1 vma = unat (drop_bit 9 (VPN vma) mod 512)"

definition VPN0 :: "u64 \<Rightarrow> nat" where
  "VPN0 vma = unat (VPN vma mod 512)"

definition alloc_phys_page :: "mem_state \<Rightarrow> panic + (u64 \<times> mem_state)" where
  "alloc_phys_page s =
     (case alloc_phys_pages 1 (free_chunk_list s) of
        Inl f \<Rightarrow> Inl f
      | Inr (a, cs) \<Rightarrow> Inr (a, s\<lparr>free_chunk_list := cs\<rparr>))"

text \<open>\<open>memset(pp, 0, PAGE_SIZE)\<close> on a page, looked at as a table.\<close>

definition zero_page :: "u64 \<Rightarrow> mem_state \<Rightarrow> panic + mem_state" where
  "zero_page p s =
     (if p = 0 then Inl NullDeref else Inr (s\<lparr>ptabs := (ptabs s)(p := (\<lambda>_. null_pte))\<rparr>))"

definition set_pte :: "u64 \<Rightarrow> nat \<Rightarrow> pte \<Rightarrow> mem_state \<Rightarrow> mem_state" where
  "set_pte t i e s = s\<lparr>ptabs := (ptabs s)(t := (ptabs s t)(i := e))\<rparr>"

definition free_phys_page :: "u64 \<Rightarrow> mem_state \<Rightarrow> mem_state" where
  "free_phys_page pp s =
     (if pp = 0 then s
      else s\<lparr>ptabs := (ptabs s)(pp := (\<lambda>_. null_pte)),
             free_chunk_list := free_list_insert pp 1 (free_chunk_list s)\<rparr>)"

text \<open>
  One level of the descent of \<open>map_page\<close>: the table that the entry \<open>i\<close> of the table
  \<open>t\<close> points to, after a fresh zeroed page has been linked there if the entry was not
  valid.
\<close>

definition next_table :: "u64 \<Rightarrow> nat \<Rightarrow> mem_state \<Rightarrow> panic + (u64 \<times> mem_state)" where
  "next_table t i s =
     (if PTE_VALID (ptabs s t i) then Inr (pageptr (ppn (ptabs s t i)), s)
      else
        case alloc_phys_page s of
          Inl f \<Rightarrow> Inl f
        | Inr (pp1, s1) \<Rightarrow>
            (case zero_page pp1 s1 of
               Inl f \<Rightarrow> Inl f
             | Inr s2 \<Rightarrow>
                 let s3 = set_pte t i (ptab_pte pp1 0) s2
                 in Inr (pageptr (ppn (ptabs s3 t i)), s3)))"

text \<open>The descent of \<open>map_page\<close> for a rounded address: the level-0 table \<open>pt0\<close> and
  the state after the interior tables that were missing have been linked.\<close>

definition map_walk :: "u64 \<Rightarrow> mem_state \<Rightarrow> panic + (u64 \<times> mem_state)" where
  "map_walk vma s =
     (case next_table (active_space_ptab s) (VPN2 vma) s of
        Inl f \<Rightarrow> Inl f
      | Inr (pt1, s1) \<Rightarrow> next_table pt1 (VPN1 vma) s1)"

text \<open>\<open>map_page\<close> returns the rounded address, or \<open>NULL\<close> (0) for an address that is not
  well-formed.\<close>

definition map_page :: "u64 \<Rightarrow> u64 \<Rightarrow> u8 \<Rightarrow> mem_state \<Rightarrow> panic + (u64 \<times> mem_state)" where
  "map_page vma0 pp rwxug_flags s =
     (if \<not> wellformed vma0 then Inr (0, s)
      else
        let vma = ROUND_DOWN vma0
        in case map_walk vma s of
             Inl f \<Rightarrow> Inl f
           | Inr (pt0, s1) \<Rightarrow>
               if PTE_VALID (ptabs s1 pt0 (VPN0 vma)) then Inr (vma, s1)
               else Inr (vma, set_pte pt0 (VPN0 vma) (leaf_pte pp rwxug_flags) s1))"

text \<open>\<open>UMEM_START_VMA\<close> and \<open>UMEM_END_VMA\<close> come from conf.h, which is not among the
  sources: they are the parameters \<open>ustart\<close> and \<open>uend\<close>. The result is the \<open>int\<close>
  returned, 1 for retry and 0 for fatal, and the state.\<close>

definition handle_umode_page_fault ::
    "u64 \<Rightarrow> u64 \<Rightarrow> u64 \<Rightarrow> mem_state \<Rightarrow> panic + (nat \<times> mem_state)" where
  "handle_umode_page_fault ustart uend vma s =
     (if ustart \<le> vma \<and> vma < uend then
        (case alloc_phys_page s of
           Inl f \<Rightarrow> Inl f
         | Inr (pp, s1) \<Rightarrow>
             if pp = 0 then Inr (0, s1)
             else
               case map_page vma pp (PTE_R OR PTE_W OR PTE_U) s1 of
                 Inl f \<Rightarrow> Inl f
               | Inr (m, s2) \<Rightarrow>
                   if m = 0 then Inr (0, free_phys_page pp s2) else Inr (1, s2))
      else Inr (0, s))"

text \<open>
  An address space for the examples: the root table at \<open>0x80010000\<close> points to the
  level-1 table at \<open>0x80011000\<close>, which points to the level-0 table at \<open>0x80012000\<close>,
  both through entry 0 of the user address \<open>0xC0000000\<close> (its \<open>VPN2\<close> is 3). In
  \<open>as_mapped\<close> that address is mapped read-only for the user to the frame
  \<open>0x80020000\<close>; in \<open>as_unmapped\<close> it has no leaf. The pool has one chunk of four
  pages at \<open>0x80100000\<close>.
\<close>

definition as_tables :: "pte \<Rightarrow> u64 \<Rightarrow> nat \<Rightarrow> pte" where
  "as_tables leaf t i =
     (if t = 0x80010000 \<and> i = 3 then ptab_pte 0x80011000 0
      else if t = 0x80011000 \<and> i = 0 then ptab_pte 0x80012000 0
      else if t = 0x80012000 \<and> i = 0 then leaf
      else null_pte)"

definition as_mapped :: mem_state where
  "as_mapped =
     \<lparr>free_chunk_list = [(0x80100000, 4)],
      ptabs = as_tables (leaf_pte 0x80020000 (PTE_R OR PTE_U)),
      satp = 0x8000000000080010\<rparr>"

definition as_unmapped :: mem_state where
  "as_unmapped =
     \<lparr>free_chunk_list = [(0x80100000, 4)],
      ptabs = as_tables null_pte,
      satp = 0x8000000000080010\<rparr>"

section \<open>dev/vioblk.c: positional reads of the block device\<close>

text \<open>
  The driver reads the block size and the capacity from the configuration registers of the
  device (\<open>regs->config.blk\<close>). A request names a sector; the device answers it with a
  status byte and the data it has written into \<open>vioblk->data\<close>, an array of
  \<open>VIOBLK_BLKSZ\<close>, 512, bytes, which is the length of the data descriptor. The model
  takes the answer of the device to the request for a sector as a function of the sector, so
  it covers the runs in which every request completes (the driver waits on the completion
  condition until the used index has caught up). The result is the value returned and the
  copies made into the caller's buffer, in order, each with its offset in the buffer.
\<close>

abbreviation VIOBLK_BLKSZ :: nat where "VIOBLK_BLKSZ \<equiv> 512"

record vioblk_config =
  blk_size :: u32
  capacity :: u64

type_synonym blk_device = "u64 \<Rightarrow> u8 \<times> (nat \<Rightarrow> u8)"

definition VIRTIO_BLK_S_IOERR :: u8 where "VIRTIO_BLK_S_IOERR = 1"
definition VIRTIO_BLK_S_UNSUPP :: u8 where "VIRTIO_BLK_S_UNSUPP = 2"

text \<open>
  The rounds of the request loop, for the values of \<open>i\<close> still to come: the round asks for
  the sector \<open>pos / blkSize + i\<close>, tests the status, and copies \<open>blkSize\<close> bytes from
  \<open>vioblk->data\<close> to the offset \<open>i * blkSize\<close> of the buffer, a product of an \<open>int\<close>
  and a \<open>uint32_t\<close> that is formed in 32 bits. A copy of more than 512 bytes reads past
  \<open>vioblk->data\<close>. The result is the error that ended the loop, if any, and the copies
  made.
\<close>

fun read_blocks ::
    "blk_device \<Rightarrow> u32 \<Rightarrow> u64 \<Rightarrow> nat list \<Rightarrow> panic + (errno option \<times> (nat \<times> u8 list) list)" where
  "read_blocks dev blkSize first [] = Inr (None, [])"
| "read_blocks dev blkSize first (i # rest) =
     (let (status, dat) = dev (first + of_nat i)
      in if status AND VIRTIO_BLK_S_IOERR \<noteq> 0 then Inr (Some EIO, [])
         else if status AND VIRTIO_BLK_S_UNSUPP \<noteq> 0 then Inr (Some ENOTSUP, [])
         else if VIOBLK_BLKSZ < unat blkSize then Inl OutOfBounds
         else
           case read_blocks dev blkSize first rest of
             Inl f \<Rightarrow> Inl f
           | Inr (e, copies) \<Rightarrow>
               Inr (e, (unat (word_of_nat i * blkSize :: u32), map dat [0..<unat blkSize]) # copies))"

text \<open>\<open>int numBlocks = byteread / blkSize\<close>: the quotient is cut to 32 bits and read as
  signed; the loop \<open>for (int i = 0; i < numBlocks; i++)\<close> makes that many rounds, none when
  the number is not positive.\<close>

definition numBlocks :: "u64 \<Rightarrow> u32 \<Rightarrow> nat" where
  "numBlocks byteread blkSize = nat (sint (ucast (byteread div ucast blkSize) :: u32))"

definition vioblk_readat ::
    "vioblk_config \<Rightarrow> blk_device \<Rightarrow> u64 \<Rightarrow> bool \<Rightarrow> u64
       \<Rightarrow> panic + (u64 ret \<times> (nat \<times> u8 list) list)" where
  "vioblk_readat cfg dev p buf_null bufsz =
     (let blkSize = blk_size cfg;
          e = capacity cfg * ucast blkSize
      in if p = e then Inr (Val 0, [])
         else if buf_null then Inr (Err EINVAL, [])
         else if e < p then Inr (Err EINVAL, [])
         else if bufsz <s 0 then Inr (Err EINVAL, [])
         else if bufsz = 0 then Inr (Val 0, [])
         else if blkSize = 0 then Inl DivByZero
         else
           let byteread = (if e < p + bufsz then e - p else bufsz)
           in case read_blocks dev blkSize (p div ucast blkSize) [0..<numBlocks byteread blkSize] of
                Inl f \<Rightarrow> Inl f
              | Inr (Some err, copies) \<Rightarrow> Inr (Err err, copies)
              | Inr (None, copies) \<Rightarrow> Inr (Val byteread, copies))"

text \<open>A disk of eight 512-byte sectors whose device answers every request with status 0 and
  a sector filled with the low byte of the sector number.\<close>

definition disk8 :: vioblk_config where
  "disk8 = \<lparr>blk_size = 512, capacity = 8\<rparr>"

definition numbered_device :: blk_device where
  "numbered_device sector = (0, \<lambda>i. ucast sector)"

section \<open>ktfs.c: the on-disk layout\<close>

text \<open>
  Modelled from the spec: ktfs.h and cache.h are not among the sources. The constants and
  the record layouts are those of the spec's section on the on-disk layout: blocks of 512
  bytes; inodes of 32 bytes, which are the size, four direct block numbers, one indirect and
  two double-indirect block numbers, each a little-endian 32-bit integer; directory entries
  of 32 bytes, a 14-byte name followed by a 2-byte inode number and padding; block numbers
  relative to the first data block. An indirect block holds 128 block numbers.
\<close>

abbreviation KTFS_BLKSZ :: nat where "KTFS_BLKSZ \<equiv> 512"
abbreviation KTFS_INOSZ :: nat where "KTFS_INOSZ \<equiv> 32"
abbreviation KTFS_DENSZ :: nat where "KTFS_DENSZ \<equiv> 32"
abbreviation FILENAME_SIZE :: nat where "FILENAME_SIZE \<equiv> 14"
abbreviation DIR_SIZE :: nat where "DIR_SIZE \<equiv> 16"
abbreviation INODES_PER_BLK :: nat where "INODES_PER_BLK \<equiv> 16"
abbreviation KTFS_NUM_DIRECT_DATA_BLOCKS :: nat where "KTFS_NUM_DIRECT_DATA_BLOCKS \<equiv> 4"
abbreviation KTFS_NUM_DINDIRECT_BLOCKS :: nat where "KTFS_NUM_DINDIRECT_BLOCKS \<equiv> 2"
abbreviation KTFS_BLKS_PER_INDIRECT :: nat where "KTFS_BLKS_PER_INDIRECT \<equiv> 128"
abbreviation KTFS_BLKS_PER_DINDIRECT :: nat where "KTFS_BLKS_PER_DINDIRECT \<equiv> 16384"

text \<open>
  A block is a function from the byte offset to the byte; the disk maps a block number to
  its block. The block cache writes a block through to the backing device when it is
  released dirty and the file system releases every block it has changed as dirty, so the
  file system sees the disk through the cache as it is: \<open>cache_get_block\<close> at a position
  yields the block of number position / 512 (every position the file system passes is a
  multiple of 512), and a dirty release stores the changed block.
\<close>

type_synonym block = "nat \<Rightarrow> u8"
type_synonym disk = "nat \<Rightarrow> block"

definition rd :: "block \<Rightarrow> nat \<Rightarrow> nat \<Rightarrow> u8 list" where
  "rd b off n = map b [off..<off + n]"

definition wr :: "block \<Rightarrow> nat \<Rightarrow> u8 list \<Rightarrow> block" where
  "wr b off bytes = (\<lambda>j. if off \<le> j \<and> j < off + length bytes then bytes ! (j - off) else b j)"

definition enc32 :: "u32 \<Rightarrow> u8 list" where
  "enc32 w = [ucast w, ucast (drop_bit 8 w), ucast (drop_bit 16 w), ucast (drop_bit 24 w)]"

definition dec32 :: "u8 list \<Rightarrow> u32" where
  "dec32 bs = ucast (bs ! 0) OR push_bit 8 (ucast (bs ! 1)) OR push_bit 16 (ucast (bs ! 2))
              OR push_bit 24 (ucast (bs ! 3))"

definition dec16 :: "u8 list \<Rightarrow> u16" where
  "dec16 bs = ucast (bs ! 0) OR push_bit 8 (ucast (bs ! 1))"

record ktfs_superblock =
  bitmap_block_count :: u32
  inode_block_count :: u32
  root_directory_inode :: u16

record ktfs_inode =
  i_size :: u32
  i_block :: "u32 list"
  i_indirect :: u32
  i_dindirect :: "u32 list"

definition enc_inode :: "ktfs_inode \<Rightarrow> u8 list" where
  "enc_inode ino =
     enc32 (i_size ino) @ concat (map enc32 (i_block ino)) @ enc32 (i_indirect ino)
     @ concat (map enc32 (i_dindirect ino))"

definition dec_inode :: "u8 list \<Rightarrow> ktfs_inode" where
  "dec_inode bs =
     \<lparr>i_size = dec32 (take 4 bs),
      i_block = map (\<lambda>k. dec32 (take 4 (drop (4 + 4 * k) bs))) [0..<KTFS_NUM_DIRECT_DATA_BLOCKS],
      i_indirect = dec32 (take 4 (drop 20 bs)),
      i_dindirect = map (\<lambda>k. dec32 (take 4 (drop (24 + 4 * k) bs))) [0..<KTFS_NUM_DINDIRECT_BLOCKS]\<rparr>"

text \<open>A directory entry is kept as its 32 bytes; a structure assignment copies all of
  them.\<close>

type_synonym ktfs_dir_entry = "u8 list"

definition dentry_name :: "ktfs_dir_entry \<Rightarrow> u8 list" where
  "dentry_name d = take FILENAME_SIZE d"

definition dentry_inode :: "ktfs_dir_entry \<Rightarrow> u16" where
  "dentry_inode d = dec16 (drop FILENAME_SIZE d)"

text \<open>\<open>strncmp(a, b, n) == 0\<close>: the strings agree up to their terminators or to \<open>n\<close>
  characters.\<close>

definition strncmp_eq :: "u8 list \<Rightarrow> u8 list \<Rightarrow> nat \<Rightarrow> bool" where
  "strncmp_eq a b n = (takeWhile (\<lambda>c. c \<noteq> 0) (take n a) = takeWhile (\<lambda>c. c \<noteq> 0) (take n b))"

section \<open>ktfs.c: the mounted file system and its open files\<close>

text \<open>
  struct ktfs_file, with the directory entry and the inode it points to, and the global
  \<open>filesetup\<close>. The table of open file names is a function of the index; open files are
  found by the address of their endpoint.
\<close>

record ktfs_file =
  dentry :: ktfs_dir_entry
  file_inode :: ktfs_inode
  name_pos :: nat
  file_open :: bool

record fs_state =
  super_blk :: ktfs_superblock
  root_dir_inode :: ktfs_inode
  cache :: disk
  open_file_fio :: "nat \<Rightarrow> nat"
  open_file_name :: "nat \<Rightarrow> u8 list"
  cur_file_count :: nat
  fios :: "nat \<Rightarrow> ktfs_file"
  inode_bitmap :: "nat \<Rightarrow> u8"

text \<open>\<open>1 + bitmap_block_count + inode_block_count\<close> is computed in 32 bits.\<close>

definition global_datablock_0 :: "fs_state \<Rightarrow> nat" where
  "global_datablock_0 fs =
     unat (1 + bitmap_block_count (super_blk fs) + inode_block_count (super_blk fs))"

text \<open>The block that holds the inode of a number: \<open>1 + bitmap_block_count\<close> is computed in
  32 bits, the block index is added in 64 bits.\<close>

definition inode_block :: "fs_state \<Rightarrow> u16 \<Rightarrow> nat" where
  "inode_block fs ino = unat (1 + bitmap_block_count (super_blk fs)) + unat ino div INODES_PER_BLK"

definition put_block :: "nat \<Rightarrow> block \<Rightarrow> fs_state \<Rightarrow> fs_state" where
  "put_block bn b fs = fs\<lparr>cache := (cache fs)(bn := b)\<rparr>"

definition write_inode_to_disk :: "fs_state \<Rightarrow> ktfs_file \<Rightarrow> fs_state" where
  "write_inode_to_disk fs fio =
     (let ino = dentry_inode (dentry fio);
          bn = inode_block fs ino
      in put_block bn
           (wr (cache fs bn) (unat ino mod INODES_PER_BLK * KTFS_INOSZ) (enc_inode (file_inode fio)))
           fs)"

section \<open>ktfs.c: the block bitmap\<close>

text \<open>The bits of a byte are tried from bit 7 down to bit 0, the bytes of a bitmap block
  and the bitmap blocks in rising order.\<close>

definition free_bit :: "u8 \<Rightarrow> nat option" where
  "free_bit b = List.find (\<lambda>i. b AND push_bit i 1 = 0) [7, 6, 5, 4, 3, 2, 1, 0]"

definition free_byte :: "block \<Rightarrow> nat option" where
  "free_byte b = List.find (\<lambda>byte. free_bit (b byte) \<noteq> None) [0..<KTFS_BLKSZ]"

definition free_bitmap_block :: "fs_state \<Rightarrow> nat option" where
  "free_bitmap_block fs =
     List.find (\<lambda>blk. free_byte (cache fs (1 + blk)) \<noteq> None)
       [0..<unat (bitmap_block_count (super_blk fs))]"

text \<open>\<open>allocate_open_block\<close>: \<open>None\<close> stands for the value \<open>-ENODATABLKS\<close> that the
  callers test for.\<close>

definition allocate_open_block :: "fs_state \<Rightarrow> nat option \<times> fs_state" where
  "allocate_open_block fs =
     (case free_bitmap_block fs of
        None \<Rightarrow> (None, fs)
      | Some blk \<Rightarrow>
          (case free_byte (cache fs (1 + blk)) of
             None \<Rightarrow> (None, fs)
           | Some byte \<Rightarrow>
               (case free_bit (cache fs (1 + blk) byte) of
                  None \<Rightarrow> (None, fs)
                | Some i \<Rightarrow>
                    (Some (blk * KTFS_BLKSZ * 8 + (byte * 8 + i)),
                     put_block (1 + blk)
                       ((cache fs (1 + blk))(byte := cache fs (1 + blk) byte OR push_bit i 1))
                       fs))))"

text \<open>\<open>free_block\<close> takes an \<open>int\<close>; the division and the remainder by 4096 are those of
  C, which round towards zero, and the results are converted to \<open>unsigned int\<close>.\<close>

definition c_div :: "int \<Rightarrow> int \<Rightarrow> int" where
  "c_div a b = sgn a * sgn b * (\<bar>a\<bar> div \<bar>b\<bar>)"

definition c_mod :: "int \<Rightarrow> int \<Rightarrow> int" where
  "c_mod a b = a - c_div a b * b"

definition free_block :: "u32 \<Rightarrow> fs_state \<Rightarrow> fs_state" where
  "free_block block_num fs =
     (let bitmap_block_idx = unat (1 + word_of_int (c_div (sint block_num) 4096) :: u32);
          bit_offset = unat (word_of_int (c_mod (sint block_num) 4096) :: u32);
          b = cache fs bitmap_block_idx
      in put_block bitmap_block_idx
           (b(bit_offset div 8 := b (bit_offset div 8) AND NOT (push_bit (bit_offset mod 8) 1)))
           fs)"

section \<open>ktfs.c: growing a file\<close>

text \<open>Entry \<open>k\<close> of a block looked at as an array of 32-bit block numbers. An index of 128
  or more lies outside the block; the model reports the access as \<open>OutOfBounds\<close>.\<close>

definition get_ptr :: "fs_state \<Rightarrow> nat \<Rightarrow> nat \<Rightarrow> u32" where
  "get_ptr fs bn k = dec32 (rd (cache fs bn) (4 * k) 4)"

definition set_ptr :: "nat \<Rightarrow> nat \<Rightarrow> u32 \<Rightarrow> fs_state \<Rightarrow> fs_state" where
  "set_ptr bn k v fs = put_block bn (wr (cache fs bn) (4 * k) (enc32 v)) fs"

text \<open>The three assignments to the in-memory inode, each followed by
  \<open>write_inode_to_disk\<close>.\<close>

definition set_direct :: "nat \<Rightarrow> nat \<Rightarrow> fs_state \<Rightarrow> ktfs_file \<Rightarrow> fs_state \<times> ktfs_file" where
  "set_direct k a fs fio =
     (let fio' = fio\<lparr>file_inode := (file_inode fio)\<lparr>i_block := (i_block (file_inode fio))[k := of_nat a]\<rparr>\<rparr>
      in (write_inode_to_disk fs fio', fio'))"

definition set_indirect :: "nat \<Rightarrow> fs_state \<Rightarrow> ktfs_file \<Rightarrow> fs_state \<times> ktfs_file" where
  "set_indirect a fs fio =
     (let fio' = fio\<lparr>file_inode := (file_inode fio)\<lparr>i_indirect := of_nat a\<rparr>\<rparr>
      in (write_inode_to_disk fs fio', fio'))"

definition set_dindirect :: "nat \<Rightarrow> nat \<Rightarrow> fs_state \<Rightarrow> ktfs_file \<Rightarrow> fs_state \<times> ktfs_file" where
  "set_dindirect k a fs fio =
     (let fio' = fio\<lparr>file_inode :=
                      (file_inode fio)\<lparr>i_dindirect := (i_dindirect (file_inode fio))[k := of_nat a]\<rparr>\<rparr>
      in (write_inode_to_disk fs fio', fio'))"

text \<open>The result of \<open>add_new_inode_datablk\<close> is \<open>Val 1\<close> or \<open>Err ENODATABLKS\<close>.\<close>

type_synonym fs_result = "panic + (u32 ret \<times> fs_state \<times> ktfs_file)"

text \<open>The branch of \<open>add_new_inode_datablk\<close> for a new block in the indirect range.\<close>

definition add_indirect_blk :: "fs_state \<Rightarrow> ktfs_file \<Rightarrow> nat \<Rightarrow> fs_result" where
  "add_indirect_blk fs fio old_idx =
     (let new_idx = old_idx + 1;
          first = (if old_idx < KTFS_NUM_DIRECT_DATA_BLOCKS
                   then (case allocate_open_block fs of
                           (None, fs1) \<Rightarrow> Inl (fs1, fio)
                         | (Some a, fs1) \<Rightarrow> Inr (set_indirect a fs1 fio))
                   else Inr (fs, fio))
      in case first of
           Inl (fs1, fio1) \<Rightarrow> Inr (Err ENODATABLKS, fs1, fio1)
         | Inr (fs1, fio1) \<Rightarrow>
             let indirect_bn = unat (i_indirect (file_inode fio1)) + global_datablock_0 fs1
             in case allocate_open_block fs1 of
                  (None, fs2) \<Rightarrow> Inr (Err ENODATABLKS, fs2, fio1)
                | (Some a, fs2) \<Rightarrow>
                    Inr (Val 1,
                         set_ptr indirect_bn (new_idx - KTFS_NUM_DIRECT_DATA_BLOCKS) (of_nat a) fs2,
                         fio1))"

text \<open>The branch for a new block in the double-indirect range, in two parts. First, a
  double-indirect block is allocated when the new block is the first under it;
  \<open>Inl\<close> is a failed allocation.\<close>

definition dindirect_root ::
    "fs_state \<Rightarrow> ktfs_file \<Rightarrow> nat \<Rightarrow> (fs_state \<times> ktfs_file) + (fs_state \<times> ktfs_file)" where
  "dindirect_root fs fio new_zero_offset =
     (if new_zero_offset = 0
      then (case allocate_open_block fs of
              (None, fs1) \<Rightarrow> Inl (fs1, fio)
            | (Some a, fs1) \<Rightarrow> Inr (set_dindirect 0 a fs1 fio))
      else if new_zero_offset = KTFS_BLKS_PER_DINDIRECT
      then (case allocate_open_block fs of
              (None, fs1) \<Rightarrow> Inl (fs1, fio)
            | (Some a, fs1) \<Rightarrow> Inr (set_dindirect 1 a fs1 fio))
      else Inr (fs, fio))"

text \<open>Then an indirect block is allocated and entered in the double-indirect block when
  the new block is the first under it, and the new block is allocated and entered in the
  indirect block.\<close>

definition dindirect_entry :: "fs_state \<Rightarrow> ktfs_file \<Rightarrow> nat \<Rightarrow> fs_result" where
  "dindirect_entry fs1 fio1 new_zero_offset =
     (let dind_blk_idx = (if new_zero_offset < KTFS_BLKS_PER_DINDIRECT then 0 else 1);
          nzo = (if new_zero_offset < KTFS_BLKS_PER_DINDIRECT then new_zero_offset
                 else new_zero_offset - KTFS_BLKS_PER_DINDIRECT);
          indirectidx = nzo div KTFS_BLKS_PER_INDIRECT;
          indirectoffset = nzo mod KTFS_BLKS_PER_INDIRECT;
          dind_bn = unat (i_dindirect (file_inode fio1) ! dind_blk_idx) + global_datablock_0 fs1
      in if KTFS_BLKS_PER_INDIRECT \<le> indirectidx then Inl OutOfBounds
         else
           let second = (if indirectoffset = 0
                         then (case allocate_open_block fs1 of
                                 (None, fs2) \<Rightarrow> Inl fs2
                               | (Some a, fs2) \<Rightarrow> Inr (set_ptr dind_bn indirectidx (of_nat a) fs2))
                         else Inr fs1)
           in case second of
                Inl fs2 \<Rightarrow> Inr (Err ENODATABLKS, fs2, fio1)
              | Inr fs2 \<Rightarrow>
                  let indirectnum = get_ptr fs2 dind_bn indirectidx;
                      indirect_bn = unat indirectnum + global_datablock_0 fs2
                  in case allocate_open_block fs2 of
                       (None, fs3) \<Rightarrow> Inr (Err ENODATABLKS, fs3, fio1)
                     | (Some a, fs3) \<Rightarrow>
                         Inr (Val 1, set_ptr indirect_bn indirectoffset (of_nat a) fs3, fio1))"

definition add_dindirect_blk :: "fs_state \<Rightarrow> ktfs_file \<Rightarrow> nat \<Rightarrow> fs_result" where
  "add_dindirect_blk fs fio old_idx =
     (let new_zero_offset = old_idx + 1 - KTFS_NUM_DIRECT_DATA_BLOCKS - KTFS_BLKS_PER_INDIRECT
      in case dindirect_root fs fio new_zero_offset of
           Inl (fs1, fio1) \<Rightarrow> Inr (Err ENODATABLKS, fs1, fio1)
         | Inr (fs1, fio1) \<Rightarrow> dindirect_entry fs1 fio1 new_zero_offset)"

definition add_new_inode_datablk :: "fs_state \<Rightarrow> ktfs_file \<Rightarrow> nat \<Rightarrow> fs_result" where
  "add_new_inode_datablk fs fio old_idx =
     (let new_idx = old_idx + 1
      in if new_idx < KTFS_NUM_DIRECT_DATA_BLOCKS then
           (case allocate_open_block fs of
              (None, fs1) \<Rightarrow> Inr (Err ENODATABLKS, fs1, fio)
            | (Some a, fs1) \<Rightarrow>
                (case set_direct new_idx a fs1 fio of (fs2, fio2) \<Rightarrow> Inr (Val 1, fs2, fio2)))
         else if new_idx < KTFS_BLKS_PER_INDIRECT + KTFS_NUM_DIRECT_DATA_BLOCKS then
           add_indirect_blk fs fio old_idx
         else add_dindirect_blk fs fio old_idx)"

text \<open>\<open>fio->file_inode->size = v\<close>\<close>

definition set_size :: "u32 \<Rightarrow> ktfs_file \<Rightarrow> ktfs_file" where
  "set_size v fio = fio\<lparr>file_inode := (file_inode fio)\<lparr>i_size := v\<rparr>\<rparr>"






section \<open>ktfs.c: deleting a file\<close>

text \<open>The block of the root directory's \<open>i\<close>-th direct pointer:
  \<open>block[i] + global_datablock_0\<close>, added in 64 bits.\<close>

definition dir_block :: "fs_state \<Rightarrow> nat \<Rightarrow> nat" where
  "dir_block fs i = unat (i_block (root_dir_inode fs) ! i) + global_datablock_0 fs"

definition dir_slot :: "block \<Rightarrow> nat \<Rightarrow> ktfs_dir_entry" where
  "dir_slot b j = rd b (j * KTFS_DENSZ) KTFS_DENSZ"

text \<open>
  The search loops of \<open>ktfs_delete\<close>. The inner loop stops at the first entry of a block
  whose name matches; the outer loop goes on through all four direct pointers, so the
  indices and the entry that remain are those of the last block with a match.
\<close>

definition match_in_block :: "u8 list \<Rightarrow> block \<Rightarrow> nat option" where
  "match_in_block name b =
     List.find (\<lambda>j. strncmp_eq name (dentry_name (dir_slot b j)) FILENAME_SIZE) [0..<DIR_SIZE]"

definition find_dentry :: "u8 list \<Rightarrow> fs_state \<Rightarrow> (nat \<times> nat \<times> ktfs_dir_entry) option" where
  "find_dentry name fs =
     fold (\<lambda>i found.
             case match_in_block name (cache fs (dir_block fs i)) of
               None \<Rightarrow> found
             | Some j \<Rightarrow> Some (i, j, dir_slot (cache fs (dir_block fs i)) j))
          [0..<KTFS_NUM_DIRECT_DATA_BLOCKS] None"

text \<open>
  \<open>ktfs_close\<close> is written to swap the name of the file with the last name of the table
  of open files, to drop the last and to mark the file closed. It copies the names with
  \<open>strncpy\<close> and the length \<open>sizeof(struct file_name)\<close>, the size of the name array and
  of the pointer in front of it. \<open>strncpy\<close> writes that many bytes, padding with zeros, so
  the first copy, into the local array \<open>tmp_name\<close> of the size of the name array, writes
  past the array on every call (and the other two write past the name into the next entry
  of the table). The model reports the access as \<open>OutOfBounds\<close>.
\<close>

definition ktfs_close :: "nat \<Rightarrow> fs_state \<Rightarrow> panic + fs_state" where
  "ktfs_close fid fs = Inl OutOfBounds"

definition close_if_open :: "ktfs_dir_entry \<Rightarrow> fs_state \<Rightarrow> panic + fs_state" where
  "close_if_open entry fs =
     (case List.find (\<lambda>f. strncmp_eq (dentry_name entry) (open_file_name fs f) FILENAME_SIZE)
             [0..<cur_file_count fs] of
        None \<Rightarrow> Inr fs
      | Some f \<Rightarrow> ktfs_close (open_file_fio fs f) fs)"

text \<open>\<open>inodeidxblocknum\<close> returns an \<open>int\<close>: the block number of the file's block
  \<open>idx\<close>, \<open>global_datablock_0\<close> added, cut to 32 bits.\<close>

definition inodeidxblocknum :: "fs_state \<Rightarrow> ktfs_inode \<Rightarrow> nat \<Rightarrow> panic + u32" where
  "inodeidxblocknum fs inode idx =
     (let g = global_datablock_0 fs
      in if idx < KTFS_NUM_DIRECT_DATA_BLOCKS then Inr (i_block inode ! idx + of_nat g)
         else if idx < KTFS_BLKS_PER_INDIRECT + KTFS_NUM_DIRECT_DATA_BLOCKS then
           Inr (get_ptr fs (unat (i_indirect inode) + g) (idx - KTFS_NUM_DIRECT_DATA_BLOCKS) + of_nat g)
         else
           let newidx0 = idx - KTFS_NUM_DIRECT_DATA_BLOCKS - KTFS_BLKS_PER_INDIRECT;
               dindirect_block_idx = (if newidx0 < KTFS_BLKS_PER_DINDIRECT then 0 else 1);
               newidx = (if newidx0 < KTFS_BLKS_PER_DINDIRECT then newidx0
                         else newidx0 - KTFS_BLKS_PER_DINDIRECT);
               indirectidx = newidx div KTFS_BLKS_PER_INDIRECT;
               indirectoffset = newidx mod KTFS_BLKS_PER_INDIRECT
           in if KTFS_BLKS_PER_INDIRECT \<le> indirectidx then Inl OutOfBounds
              else
                let indirectnum = get_ptr fs (unat (i_dindirect inode ! dindirect_block_idx) + g)
                                    indirectidx
                in Inr (get_ptr fs (unat indirectnum + g) indirectoffset + of_nat g))"

text \<open>The loop that frees the data blocks of the file, from block \<open>i\<close> on.\<close>

fun free_data_blocks :: "ktfs_inode \<Rightarrow> nat list \<Rightarrow> fs_state \<Rightarrow> panic + fs_state" where
  "free_data_blocks inode [] fs = Inr fs"
| "free_data_blocks inode (i # rest) fs =
     (case inodeidxblocknum fs inode i of
        Inl p \<Rightarrow> Inl p
      | Inr physical_block \<Rightarrow>
          free_data_blocks inode rest
            (free_block (physical_block - of_nat (global_datablock_0 fs)) fs))"

text \<open>The loops that free the blocks named in the double-indirect blocks and the
  double-indirect blocks themselves.\<close>

definition free_dindirect :: "ktfs_inode \<Rightarrow> fs_state \<Rightarrow> fs_state" where
  "free_dindirect inode fs =
     fold (\<lambda>i fs1.
             if i_dindirect inode ! i \<noteq> 0 then
               (let bn = unat (i_dindirect inode ! i) + global_datablock_0 fs1;
                    fs2 = fold (\<lambda>j fs'. if get_ptr fs' bn j \<noteq> 0
                                         then free_block (get_ptr fs' bn j) fs' else fs')
                               [0..<KTFS_BLKS_PER_INDIRECT] fs1
                in free_block (i_dindirect inode ! i) fs2)
             else fs1)
          [0..<KTFS_NUM_DINDIRECT_BLOCKS] fs"

text \<open>
  The swap of the directory entry: the last entry of the directory is copied over the entry
  found, and the slot of the last entry is zeroed when the two lie under different direct
  pointers. With no file in the directory \<open>num_files - 1\<close> wraps and the index of the last
  block is past the four direct pointers.
\<close>

definition swap_dentry :: "nat \<Rightarrow> nat \<Rightarrow> fs_state \<Rightarrow> panic + fs_state" where
  "swap_dentry blkidx dentryidx fs =
     (let num_files = (ucast (i_size (root_dir_inode fs)) :: u64) div 32;
          last_blk_idx = unat ((num_files - 1) div 16);
          last_entry_idx = unat ((num_files - 1) mod 16)
      in if KTFS_NUM_DIRECT_DATA_BLOCKS \<le> last_blk_idx then Inl OutOfBounds
         else
           let last = dir_slot (cache fs (dir_block fs last_blk_idx)) last_entry_idx;
               fs1 = put_block (dir_block fs blkidx)
                       (wr (cache fs (dir_block fs blkidx)) (dentryidx * KTFS_DENSZ) last) fs
           in if blkidx \<noteq> last_blk_idx
              then Inr (put_block (dir_block fs1 last_blk_idx)
                          (wr (cache fs1 (dir_block fs1 last_blk_idx)) (last_entry_idx * KTFS_DENSZ)
                              (replicate KTFS_DENSZ 0))
                          fs1)
              else Inr fs1)"

text \<open>The end of \<open>ktfs_delete\<close>: the inode is marked free and zeroed, at the offset
  \<open>inodeidx * 32\<close> of its block, which lies in the block for the first 16 inodes only; the
  size of the root directory goes down by 32 and its inode is written back.\<close>

definition release_inode :: "u16 \<Rightarrow> fs_state \<Rightarrow> panic + fs_state" where
  "release_inode inodeidx fs =
     (let fs1 = fs\<lparr>inode_bitmap := (inode_bitmap fs)(unat inodeidx := 0)\<rparr>;
          bn = inode_block fs1 inodeidx
      in if KTFS_BLKSZ < unat inodeidx * KTFS_INOSZ + KTFS_INOSZ then Inl OutOfBounds
         else
           let fs2 = put_block bn
                       (wr (cache fs1 bn) (unat inodeidx * KTFS_INOSZ) (replicate KTFS_INOSZ 0)) fs1;
               root = (root_dir_inode fs2)\<lparr>i_size := i_size (root_dir_inode fs2) - 32\<rparr>;
               fs3 = fs2\<lparr>root_dir_inode := root\<rparr>;
               rootidx = root_directory_inode (super_blk fs3);
               rbn = inode_block fs3 rootidx
           in Inr (put_block rbn
                     (wr (cache fs3 rbn) (unat rootidx mod INODES_PER_BLK * KTFS_INOSZ)
                         (enc_inode root))
                     fs3))"

text \<open>\<open>ktfs_delete\<close>; \<open>name\<close> is \<open>None\<close> for a null pointer. The second test of the
  source compares the size of the pointer, which is 8, with the longest file name and never
  holds.\<close>

definition ktfs_delete :: "u8 list option \<Rightarrow> fs_state \<Rightarrow> panic + (u32 ret \<times> fs_state)" where
  "ktfs_delete name_ptr fs =
     (case name_ptr of
        None \<Rightarrow> Inr (Err EINVAL, fs)
      | Some name \<Rightarrow>
          (case find_dentry name fs of
             None \<Rightarrow> Inr (Err ENOENT, fs)
           | Some (blkidx, dentryidx, entry) \<Rightarrow>
               (case close_if_open entry fs of
                  Inl p \<Rightarrow> Inl p
                | Inr fs1 \<Rightarrow>
                    let inodeidx = dentry_inode entry;
                        inode = dec_inode (rd (cache fs1 (inode_block fs1 inodeidx))
                                              (unat inodeidx mod INODES_PER_BLK * KTFS_INOSZ) KTFS_INOSZ);
                        filesizeinblocks = unat ((i_size inode + 512 - 1) div 512)
                    in case free_data_blocks inode [0..<filesizeinblocks] fs1 of
                         Inl p \<Rightarrow> Inl p
                       | Inr fs2 \<Rightarrow>
                           let fs3 = (if KTFS_NUM_DIRECT_DATA_BLOCKS < filesizeinblocks
                                         \<and> i_indirect inode \<noteq> 0
                                      then free_block (i_indirect inode) fs2 else fs2);
                               fs4 = (if KTFS_NUM_DIRECT_DATA_BLOCKS + KTFS_BLKS_PER_INDIRECT
                                           < filesizeinblocks
                                      then free_dindirect inode fs3 else fs3)
                           in case swap_dentry blkidx dentryidx fs4 of
                                Inl p \<Rightarrow> Inl p
                              | Inr fs5 \<Rightarrow>
                                  (case release_inode inodeidx fs5 of
                                     Inl p \<Rightarrow> Inl p
                                   | Inr fs6 \<Rightarrow> Inr (Val 0, fs6)))))"

text \<open>
  A volume with one bitmap block and one inode block, so that data block 0 is block 3. The
  root directory is inode 0 and holds one file, \<open>a\<close>, of inode 1 and size 0. Its entry is
  the first of data block 7, which alone is marked in the bitmap; the other direct pointers
  of the root directory are 0, and data block 0 is empty.
\<close>

definition entry_a :: ktfs_dir_entry where
  "entry_a = [97] @ replicate 13 0 @ [1, 0] @ replicate 16 0"

definition root_one_file :: ktfs_inode where
  "root_one_file = \<lparr>i_size = 32, i_block = [7, 0, 0, 0], i_indirect = 0, i_dindirect = [0, 0]\<rparr>"

definition one_file_disk :: disk where
  "one_file_disk =
     (\<lambda>bn. if bn = 1 then (\<lambda>j. if j = 0 then 128 else 0)
           else if bn = 2 then wr (\<lambda>j. 0) 0 (enc_inode root_one_file)
           else if bn = 10 then wr (\<lambda>j. 0) 0 entry_a
           else (\<lambda>j. 0))"

definition one_file_fs :: fs_state where
  "one_file_fs =
     \<lparr>super_blk = \<lparr>bitmap_block_count = 1, inode_block_count = 1, root_directory_inode = 0\<rparr>,
      root_dir_inode = root_one_file,
      cache = one_file_disk,
      open_file_fio = (\<lambda>f. 0),
      open_file_name = (\<lambda>f. []),
      cur_file_count = 0,
      fios = (\<lambda>f. \<lparr>dentry = [], file_inode = root_one_file, name_pos = 0, file_open = False\<rparr>),
      inode_bitmap = (\<lambda>i. if i < 2 then 1 else 0)\<rparr>"

section \<open>ktfs.c: properties of volumes and open files\<close>

text \<open>The arrays of an inode have their lengths: four direct and two double-indirect
  block numbers.\<close>

definition wf_file :: "ktfs_file \<Rightarrow> bool" where
  "wf_file fio =
     (length (i_block (file_inode fio)) = KTFS_NUM_DIRECT_DATA_BLOCKS
      \<and> length (i_dindirect (file_inode fio)) = KTFS_NUM_DINDIRECT_BLOCKS)"



text \<open>
  The bitmap has a bit for each of the data blocks \<open>0\<close> to \<open>bitmap_size - 1\<close>; the bit of
  data block \<open>a\<close> is bit \<open>a mod 8\<close> of byte \<open>a mod 4096 div 8\<close> of bitmap block
  \<open>a div 4096\<close>, as \<open>allocate_open_block\<close> numbers the blocks and \<open>free_block\<close> finds
  them. \<open>used_bits\<close> is the number of blocks in use.
\<close>

definition bitmap_size :: "fs_state \<Rightarrow> nat" where
  "bitmap_size fs = unat (bitmap_block_count (super_blk fs)) * 4096"

definition used :: "fs_state \<Rightarrow> nat \<Rightarrow> bool" where
  "used fs a = bit (cache fs (1 + a div 4096) (a mod 4096 div 8)) (a mod 8)"

definition used_bits :: "fs_state \<Rightarrow> nat" where
  "used_bits fs = length (filter (used fs) [0..<bitmap_size fs])"

text \<open>\<open>took n fs fs'\<close>: from \<open>fs\<close> to \<open>fs'\<close> the superblock is the same, no block in
  use has been given back, and \<open>n\<close> more blocks are in use.\<close>

definition took :: "nat \<Rightarrow> fs_state \<Rightarrow> fs_state \<Rightarrow> bool" where
  "took n fs fs' =
     (super_blk fs' = super_blk fs
      \<and> (\<forall>a < bitmap_size fs. used fs a \<longrightarrow> used fs' a)
      \<and> used_bits fs' = used_bits fs + n)"

text \<open>\<open>fresh fs fs' w\<close>: the block number \<open>w\<close> is that of a block of the bitmap which was
  free in \<open>fs\<close> and is in use in \<open>fs'\<close>.\<close>

definition fresh :: "fs_state \<Rightarrow> fs_state \<Rightarrow> u32 \<Rightarrow> bool" where
  "fresh fs fs' w = (\<exists>a < bitmap_size fs. w = of_nat a \<and> \<not> used fs a \<and> used fs' a)"



text \<open>
  \<open>installed ks fs fs' ino ino'\<close>: the pointers of the inode for the blocks \<open>ks\<close> are
  fresh and its other pointers are as before: the direct pointer of a block below 4, the
  indirect pointer for block 4, and the double-indirect pointers for the blocks 132 and
  16516.
\<close>

definition installed :: "nat list \<Rightarrow> fs_state \<Rightarrow> fs_state \<Rightarrow> ktfs_inode \<Rightarrow> ktfs_inode \<Rightarrow> bool" where
  "installed ks fs fs' ino ino' =
     ((\<forall>j < 4. if j \<in> set ks then fresh fs fs' (i_block ino' ! j)
                else i_block ino' ! j = i_block ino ! j)
      \<and> (if 4 \<in> set ks then fresh fs fs' (i_indirect ino') else i_indirect ino' = i_indirect ino)
      \<and> (\<forall>j < 2. if 132 + j * 16384 \<in> set ks then fresh fs fs' (i_dindirect ino' ! j)
                  else i_dindirect ino' ! j = i_dindirect ino ! j))"

text \<open>Two records of an open file that differ in block numbers only.\<close>

definition same_shape :: "ktfs_file \<Rightarrow> ktfs_file \<Rightarrow> bool" where
  "same_shape fio fio' =
     (i_size (file_inode fio') = i_size (file_inode fio) \<and> dentry fio' = dentry fio
      \<and> length (i_block (file_inode fio')) = length (i_block (file_inode fio))
      \<and> length (i_dindirect (file_inode fio')) = length (i_dindirect (file_inode fio)))"




chapter \<open>Theorems\<close>

section \<open>timer.c\<close>

lemma isr_loop_mtime: "mtime (isr_loop F I s) = mtime s"
proof (induction F I s rule: isr_loop.induct)
  case (1 F I s)
  show ?case
  proof (cases "sleep_list s")
    case Nil
    then show ?thesis by (subst isr_loop.simps) simp
  next
    case (Cons h rest)
    show ?thesis
    proof (cases "twake (alarms s h) < mtime s")
      case False
      with Cons show ?thesis by (subst isr_loop.simps) simp
    next
      case True
      show ?thesis
      proof (cases "cond_name (alarms s h) = ''interrupter''")
        case i: True
        have "mtime (alarm_sleep_ms F I 20 ((alarm_reset h s)\<lparr>sleep_list := rest\<rparr>)) = mtime s"
          by (simp add: alarm_sleep_ms_def alarm_sleep_def alarm_reset_def Let_def)
        with "1.IH"(1) [OF Cons True i] Cons True i show ?thesis
          by (subst isr_loop.simps) simp
      next
        case i: False
        with "1.IH"(2) [OF Cons True i] Cons True show ?thesis
          by (subst isr_loop.simps) simp
      qed
    qed
  qed
qed

lemma isr_loop_head:
  "sleep_list (isr_loop F I s) = h # rest \<Longrightarrow> mtime s \<le> twake (alarms (isr_loop F I s) h)"
proof (induction F I s rule: isr_loop.induct)
  case (1 F I s)
  show ?case
  proof (cases "sleep_list s")
    case Nil
    have "isr_loop F I s = s"
      using Nil by (subst isr_loop.simps) simp
    with Nil "1.prems" show ?thesis by simp
  next
    case (Cons h' rest')
    show ?thesis
    proof (cases "twake (alarms s h') < mtime s")
      case False
      have eq: "isr_loop F I s = s"
        using Cons False by (subst isr_loop.simps) simp
      with Cons "1.prems" False show ?thesis by (simp add: not_less)
    next
      case True
      show ?thesis
      proof (cases "cond_name (alarms s h') = ''interrupter''")
        case i: True
        let ?s1 = "alarm_sleep_ms F I 20 ((alarm_reset h' s)\<lparr>sleep_list := rest'\<rparr>)"
        have eq: "isr_loop F I s = isr_loop F I ?s1"
          using Cons True i by (subst isr_loop.simps) simp
        have m: "mtime ?s1 = mtime s"
          by (simp add: alarm_sleep_ms_def alarm_sleep_def alarm_reset_def Let_def)
        from "1.IH"(1) [OF Cons True i] "1.prems" eq m show ?thesis by simp
      next
        case i: False
        let ?s1 = "s\<lparr>events := events s @ [CondBroadcast h'], sleep_list := rest'\<rparr>"
        have eq: "isr_loop F I s = isr_loop F I ?s1"
          using Cons True i by (subst isr_loop.simps) simp
        from "1.IH"(2) [OF Cons True i] "1.prems" eq show ?thesis by simp
      qed
    qed
  qed
qed

lemma isr_loop_plain:
  "sleep_list s = xs \<Longrightarrow>
   \<forall>a \<in> set (takeWhile (expired s) xs). cond_name (alarms s a) \<noteq> ''interrupter'' \<Longrightarrow>
   isr_loop F I s = s\<lparr>events := events s @ map CondBroadcast (takeWhile (expired s) xs),
                      sleep_list := dropWhile (expired s) xs\<rparr>"
proof (induction xs arbitrary: s)
  case Nil
  then show ?case by (subst isr_loop.simps) simp
next
  case (Cons h rest)
  show ?case
  proof (cases "expired s h")
    case False
    with Cons.prems show ?thesis by (subst isr_loop.simps) (simp add: expired_def)
  next
    case True
    let ?s1 = "s\<lparr>events := events s @ [CondBroadcast h], sleep_list := rest\<rparr>"
    have ex: "expired ?s1 = expired s" by (simp add: expired_def fun_eq_iff)
    have ni: "cond_name (alarms s h) \<noteq> ''interrupter''" using Cons.prems True by simp
    have eq: "isr_loop F I s = isr_loop F I ?s1"
      using Cons.prems True ni by (subst isr_loop.simps) (simp add: expired_def)
    have "isr_loop F I ?s1 = ?s1\<lparr>events := events ?s1 @ map CondBroadcast (takeWhile (expired ?s1) rest),
                      sleep_list := dropWhile (expired ?s1) rest\<rparr>"
      using Cons.prems True by (intro Cons.IH) (simp_all add: ex)
    with eq True show ?thesis by (simp add: ex)
  qed
qed

lemma isr_loop_stop:
  "sleep_list s = [] \<or> \<not> expired s (hd (sleep_list s)) \<Longrightarrow> isr_loop F I s = s"
  by (subst isr_loop.simps) (auto simp: expired_def split: list.splits)

lemma sleep_insert_mem: "al \<in> set (sleep_insert A al xs)"
  by (induction xs) auto

lemma insert_takeWhile:
  assumes "\<not> Q al" and "\<And>a. Q a \<Longrightarrow> twake (A a) < twake (A al)"
  shows "takeWhile Q (sleep_insert A al xs) = takeWhile Q xs"
  using assms by (induction xs) auto

lemma insert_dropWhile:
  assumes "\<not> Q al" and "\<And>a. Q a \<Longrightarrow> twake (A a) < twake (A al)"
  shows "dropWhile Q (sleep_insert A al xs) = sleep_insert A al (dropWhile Q xs)"
  using assms by (induction xs) auto

lemma enqueue_takeWhile:
  assumes "\<not> Q al" and "\<And>a. Q a \<Longrightarrow> twake (A a) < twake (A al)"
  shows "takeWhile Q (sleep_enqueue A al xs) = takeWhile Q xs"
proof (cases xs)
  case Nil
  then show ?thesis using assms by (simp add: sleep_enqueue_def)
next
  case (Cons h r)
  have "Q h \<Longrightarrow> \<not> twake (A al) < twake (A h)" using assms(2) [of h] by auto
  then show ?thesis
    using Cons assms(1) insert_takeWhile [where Q = Q and al = al and A = A and xs = r, OF assms]
    by (auto simp: sleep_enqueue_def)
qed

lemma enqueue_dropWhile:
  assumes "\<not> Q al" and "\<And>a. Q a \<Longrightarrow> twake (A a) < twake (A al)"
  shows "dropWhile Q (sleep_enqueue A al xs) =
           (if takeWhile Q xs = [] then sleep_enqueue A al xs
            else sleep_insert A al (dropWhile Q xs))"
proof (cases xs)
  case Nil
  then show ?thesis using assms by (simp add: sleep_enqueue_def)
next
  case (Cons h r)
  have "Q h \<Longrightarrow> \<not> twake (A al) < twake (A h)" using assms(2) [of h] by auto
  then show ?thesis
    using Cons assms(1) insert_dropWhile [where Q = Q and al = al and A = A and xs = r, OF assms]
    by (auto simp: sleep_enqueue_def)
qed


text \<open>\<open>alarm_sleep\<close> of the preemption alarm when its wake time has not passed.\<close>

lemma alarm_sleep_enqueue:
  fixes s :: timer_state and al :: nat and tcnt :: u64
  defines "tw \<equiv> (if UINT64_MAX - twake (alarms s al) < tcnt then UINT64_MAX
                   else twake (alarms s al) + tcnt)"
  defines "A \<equiv> (alarms s)(al := (alarms s al)\<lparr>twake := tw\<rparr>)"
  assumes nlt: "\<not> tw < mtime s" and n: "cond_name (alarms s al) = ''interrupter''"
  shows "alarm_sleep al tcnt s
           = s\<lparr>alarms := A, sleep_list := sleep_enqueue A al (sleep_list s),
                stcmp := twake (A (hd (sleep_enqueue A al (sleep_list s)))), stie := True\<rparr>"
proof -
  have twI: "twake (A al) = tw" and nm: "cond_name (A al) = ''interrupter''"
    using n by (simp_all add: A_def)
  have "alarm_sleep al tcnt s =
          (let l = (case sleep_list s of
                      [] \<Rightarrow> [al]
                    | h # rest \<Rightarrow>
                        if tw < twake (A h) then al # h # rest
                        else h # sleep_insert A al rest)
           in s\<lparr>alarms := A, sleep_list := l, stcmp := twake (A (hd l)), stie := True\<rparr>)"
    unfolding alarm_sleep_def Let_def tw_def [symmetric] A_def [symmetric]
    using nlt nm by simp
  then show ?thesis
    by (cases "sleep_list s") (simp_all add: sleep_enqueue_def twI Let_def)
qed

text \<open>The round of the loop for the preemption alarm at the head of the list.\<close>

lemma rearm_step:
  fixes s :: timer_state and F :: u64 and I :: nat
  assumes n: "cond_name (alarms s I) = ''interrupter''"
  defines "tw \<equiv> (if UINT64_MAX - mtime s < 20 * (F div 1000) then UINT64_MAX
                   else mtime s + 20 * (F div 1000))"
  defines "A' \<equiv> (alarms s)(I := (alarms s I)\<lparr>twake := tw\<rparr>)"
  shows "alarm_sleep_ms F I 20 ((alarm_reset I s)\<lparr>sleep_list := rest\<rparr>)
           = s\<lparr>alarms := A', sleep_list := sleep_enqueue A' I rest,
                stcmp := twake (A' (hd (sleep_enqueue A' I rest))), stie := True\<rparr>"
proof -
  let ?s0 = "(alarm_reset I s)\<lparr>sleep_list := rest\<rparr>"
  have ge: "mtime s \<le> tw" unfolding tw_def by (rule sat_add_ge)
  have f: "mtime ?s0 = mtime s" "twake (alarms ?s0 I) = mtime s" "sleep_list ?s0 = rest"
    "cond_name (alarms ?s0 I) = ''interrupter''"
    using n by (simp_all add: alarm_reset_def)
  have tw0: "(if UINT64_MAX - twake (alarms ?s0 I) < 20 * (F div 1000) then UINT64_MAX
              else twake (alarms ?s0 I) + 20 * (F div 1000)) = tw"
    by (simp only: f tw_def)
  have A0: "(alarms ?s0)(I := (alarms ?s0 I)\<lparr>twake := tw\<rparr>) = A'"
    by (simp add: A'_def alarm_reset_def fun_eq_iff)
  have nlt: "\<not> tw < mtime ?s0" using ge by (simp add: not_less alarm_reset_def)
  have "alarm_sleep I (20 * (F div 1000)) ?s0
          = ?s0\<lparr>alarms := A', sleep_list := sleep_enqueue A' I rest,
                 stcmp := twake (A' (hd (sleep_enqueue A' I rest))), stie := True\<rparr>"
    using alarm_sleep_enqueue [where al = I and tcnt = "20 * (F div 1000)" and s = ?s0] nlt f(4)
    by (simp only: tw0 A0 f(3)) simp
  then show ?thesis by (simp add: alarm_sleep_ms_def alarm_reset_def)
qed

lemma isr_loop_interrupter_head:
  fixes s :: timer_state and F :: u64 and I :: nat
  assumes l: "sleep_list s = I # rest"
    and e: "expired s I"
    and n: "cond_name (alarms s I) = ''interrupter''"
    and d: "I \<notin> set rest"
    and o: "\<forall>a \<in> set rest. cond_name (alarms s a) \<noteq> ''interrupter''"
  defines "tw \<equiv> (if UINT64_MAX - mtime s < 20 * (F div 1000) then UINT64_MAX
                   else mtime s + 20 * (F div 1000))"
  defines "A' \<equiv> (alarms s)(I := (alarms s I)\<lparr>twake := tw\<rparr>)"
  shows "events (isr_loop F I s) = events s @ map CondBroadcast (takeWhile (expired s) rest)"
    and "alarms (isr_loop F I s) = A'"
    and "sleep_list (isr_loop F I s) =
           (if takeWhile (expired s) rest = [] then sleep_enqueue A' I rest
            else sleep_insert A' I (dropWhile (expired s) rest))"
proof -
  let ?l1 = "sleep_enqueue A' I rest"
  let ?s1 = "s\<lparr>alarms := A', sleep_list := ?l1, stcmp := twake (A' (hd ?l1)), stie := True\<rparr>"
  have ge: "mtime s \<le> tw" unfolding tw_def by (rule sat_add_ge)
  have step: "isr_loop F I s = isr_loop F I ?s1"
    using l e n rearm_step [OF n, of F rest]
    by (subst isr_loop.simps) (simp add: expired_def tw_def A'_def)
  have nI: "\<not> expired ?s1 I" using ge by (simp add: expired_def A'_def not_less)
  have ex: "a \<noteq> I \<Longrightarrow> expired ?s1 a = expired s a" for a
    by (simp add: expired_def A'_def)
  have lt: "expired ?s1 a \<Longrightarrow> twake (A' a) < twake (A' I)" for a
  proof -
    assume "expired ?s1 a"
    then have "twake (A' a) < mtime s" by (simp add: expired_def)
    moreover have "twake (A' I) = tw" by (simp add: A'_def)
    ultimately show ?thesis using ge by simp
  qed
  have tk: "takeWhile (expired ?s1) ?l1 = takeWhile (expired ?s1) rest"
    using nI lt by (rule enqueue_takeWhile)
  have dr: "dropWhile (expired ?s1) ?l1 =
              (if takeWhile (expired ?s1) rest = [] then ?l1
               else sleep_insert A' I (dropWhile (expired ?s1) rest))"
    using nI lt by (rule enqueue_dropWhile)
  have exr: "x \<in> set rest \<Longrightarrow> expired ?s1 x = expired s x" for x
    using d by (intro ex) auto
  have tr: "takeWhile (expired ?s1) rest = takeWhile (expired s) rest"
    by (rule takeWhile_cong [OF refl]) (rule exr)
  have drr: "dropWhile (expired ?s1) rest = dropWhile (expired s) rest"
    by (rule dropWhile_cong [OF refl]) (rule exr)
  have names: "\<forall>a \<in> set (takeWhile (expired ?s1) ?l1). cond_name (alarms ?s1 a) \<noteq> ''interrupter''"
  proof
    fix a assume a: "a \<in> set (takeWhile (expired ?s1) ?l1)"
    then have "a \<in> set (takeWhile (expired s) rest)" using tk tr by simp
    then have "a \<in> set rest" by (rule set_takeWhileD [THEN conjunct1])
    then show "cond_name (alarms ?s1 a) \<noteq> ''interrupter''" using o d by (auto simp: A'_def)
  qed
  have pl: "isr_loop F I ?s1 =
              ?s1\<lparr>events := events ?s1 @ map CondBroadcast (takeWhile (expired ?s1) ?l1),
                   sleep_list := dropWhile (expired ?s1) ?l1\<rparr>"
    using names by (intro isr_loop_plain) simp_all
  show "events (isr_loop F I s) = events s @ map CondBroadcast (takeWhile (expired s) rest)"
    using step pl tk tr by simp
  show "alarms (isr_loop F I s) = A'" using step pl by simp
  show "sleep_list (isr_loop F I s) =
           (if takeWhile (expired s) rest = [] then sleep_enqueue A' I rest
            else sleep_insert A' I (dropWhile (expired s) rest))"
    using step pl dr tr drr by simp
qed


lemma isr_loop_interrupter_head':
  assumes "sleep_list s = I # rest" and "expired s I"
    and "cond_name (alarms s I) = ''interrupter''" and "I \<notin> set rest"
    and "\<forall>a \<in> set rest. cond_name (alarms s a) \<noteq> ''interrupter''"
  shows "events (isr_loop F I s) = events s @ map CondBroadcast (takeWhile (expired s) rest)"
    and "alarms (isr_loop F I s) = rearmed F I s"
    and "sleep_list (isr_loop F I s) =
           (if takeWhile (expired s) rest = [] then sleep_enqueue (rearmed F I s) I rest
            else sleep_insert (rearmed F I s) I (dropWhile (expired s) rest))"
  using isr_loop_interrupter_head [OF assms, of F]
  by (simp_all add: rearmed_def rearm_time_def)

lemma isr_loop_general:
  "sleep_list s = xs \<Longrightarrow> distinct xs \<Longrightarrow>
   \<forall>a \<in> set xs. cond_name (alarms s a) = ''interrupter'' \<longrightarrow> a = I \<Longrightarrow>
     events (isr_loop F I s)
       = events s @ map CondBroadcast
           (filter (\<lambda>a. cond_name (alarms s a) \<noteq> ''interrupter'') (takeWhile (expired s) xs))
   \<and> (if I \<in> set (takeWhile (expired s) xs) \<and> cond_name (alarms s I) = ''interrupter''
       then alarms (isr_loop F I s) = rearmed F I s
          \<and> sleep_list (isr_loop F I s) =
               (if last (takeWhile (expired s) xs) = I
                then sleep_enqueue (rearmed F I s) I (dropWhile (expired s) xs)
                else sleep_insert (rearmed F I s) I (dropWhile (expired s) xs))
       else alarms (isr_loop F I s) = alarms s
          \<and> sleep_list (isr_loop F I s) = dropWhile (expired s) xs)"
proof (induction xs arbitrary: s)
  case Nil
  then have "isr_loop F I s = s" by (subst isr_loop.simps) simp
  then show ?case using Nil.prems(1) by simp
next
  case (Cons h rest)
  show ?case
  proof (cases "expired s h")
    case False
    then have "isr_loop F I s = s"
      using Cons.prems(1) by (subst isr_loop.simps) (simp add: expired_def)
    then show ?thesis using False Cons.prems(1) by simp
  next
    case True
    show ?thesis
    proof (cases "cond_name (alarms s h) = ''interrupter''")
      case i: True
      then have hI: "h = I" using Cons.prems(3) by simp
      have d: "I \<notin> set rest" using Cons.prems(2) hI by simp
      have o: "\<forall>a \<in> set rest. cond_name (alarms s a) \<noteq> ''interrupter''"
        using Cons.prems(3) d by auto
      have l: "sleep_list s = I # rest" using Cons.prems(1) hI by simp
      have e: "expired s I" using True hI by simp
      have n: "cond_name (alarms s I) = ''interrupter''" using i hI by simp
      note r = isr_loop_interrupter_head' [OF l e n d o, of F]
      have nin: "I \<notin> set (takeWhile (expired s) rest)"
        using d by (auto dest: set_takeWhileD)
      have fl: "filter (\<lambda>a. cond_name (alarms s a) \<noteq> ''interrupter'') (takeWhile (expired s) rest)
                  = takeWhile (expired s) rest"
        using o by (auto simp: filter_id_conv dest: set_takeWhileD)
      have la: "(last (I # takeWhile (expired s) rest) = I) = (takeWhile (expired s) rest = [])"
        using nin by (cases "takeWhile (expired s) rest = []") (auto simp: last_in_set)
      have P: "takeWhile (expired s) (I # rest) = I # takeWhile (expired s) rest"
        and R: "dropWhile (expired s) (I # rest) = dropWhile (expired s) rest"
        using e by simp_all
      have inP: "I \<in> set (takeWhile (expired s) (I # rest)) \<and> cond_name (alarms s I) = ''interrupter''"
        using P n by simp
      have ev: "filter (\<lambda>a. cond_name (alarms s a) \<noteq> ''interrupter'') (takeWhile (expired s) (I # rest))
                  = takeWhile (expired s) rest"
        unfolding P using n fl by simp
      have sl: "sleep_list (isr_loop F I s) =
               (if last (takeWhile (expired s) (I # rest)) = I
                then sleep_enqueue (rearmed F I s) I (dropWhile (expired s) (I # rest))
                else sleep_insert (rearmed F I s) I (dropWhile (expired s) (I # rest)))"
      proof (cases "takeWhile (expired s) rest = []")
        case True
        then have "dropWhile (expired s) rest = rest"
          using takeWhile_dropWhile_id [of "expired s" rest] by simp
        then show ?thesis unfolding P R using r(3) True la by (simp only: if_True)
      next
        case False
        then show ?thesis unfolding P R using r(3) la by (simp only: if_False)
      qed
      show ?thesis
        unfolding hI using inP ev sl r(1) r(2) by (simp only: if_True simp_thms)
    next
      case i: False
      let ?s1 = "s\<lparr>events := events s @ [CondBroadcast h], sleep_list := rest\<rparr>"
      have eq: "isr_loop F I s = isr_loop F I ?s1"
        using Cons.prems(1) True i by (subst isr_loop.simps) (simp add: expired_def)
      have ex: "expired ?s1 = expired s" by (simp add: expired_def fun_eq_iff)
      have ra: "rearmed F I ?s1 = rearmed F I s" by (simp add: rearmed_def rearm_time_def)
      have ih: "events (isr_loop F I ?s1)
       = events ?s1 @ map CondBroadcast
           (filter (\<lambda>a. cond_name (alarms ?s1 a) \<noteq> ''interrupter'') (takeWhile (expired ?s1) rest))
   \<and> (if I \<in> set (takeWhile (expired ?s1) rest) \<and> cond_name (alarms ?s1 I) = ''interrupter''
       then alarms (isr_loop F I ?s1) = rearmed F I ?s1
          \<and> sleep_list (isr_loop F I ?s1) =
               (if last (takeWhile (expired ?s1) rest) = I
                then sleep_enqueue (rearmed F I ?s1) I (dropWhile (expired ?s1) rest)
                else sleep_insert (rearmed F I ?s1) I (dropWhile (expired ?s1) rest))
       else alarms (isr_loop F I ?s1) = alarms ?s1
          \<and> sleep_list (isr_loop F I ?s1) = dropWhile (expired ?s1) rest)"
        using Cons.prems by (intro Cons.IH) simp_all
      have hn: "cond_name (alarms s I) = ''interrupter'' \<Longrightarrow> h \<noteq> I" using i by auto
      have ne: "I \<in> set (takeWhile (expired s) rest) \<Longrightarrow> takeWhile (expired s) rest \<noteq> []"
        by auto
      have P: "takeWhile (expired s) (h # rest) = h # takeWhile (expired s) rest"
        and R: "dropWhile (expired s) (h # rest) = dropWhile (expired s) rest"
        using True by simp_all
      have al: "alarms ?s1 = alarms s" and ev1: "events ?s1 = events s @ [CondBroadcast h]"
        by simp_all
      have ev: "events (isr_loop F I ?s1)
                  = events s @ map CondBroadcast
                      (filter (\<lambda>a. cond_name (alarms s a) \<noteq> ''interrupter'')
                         (takeWhile (expired s) (h # rest)))"
        using ih i unfolding P ex al ev1 by simp
      show ?thesis
      proof (cases "I \<in> set (takeWhile (expired s) rest) \<and> cond_name (alarms s I) = ''interrupter''")
        case inP: True
        then have inP2: "I \<in> set (takeWhile (expired s) (h # rest)) \<and> cond_name (alarms s I) = ''interrupter''"
          unfolding P by simp
        have la: "last (takeWhile (expired s) (h # rest)) = last (takeWhile (expired s) rest)"
          unfolding P using ne inP by (simp add: last_ConsR)
        have "alarms (isr_loop F I ?s1) = rearmed F I s
          \<and> sleep_list (isr_loop F I ?s1) =
               (if last (takeWhile (expired s) rest) = I
                then sleep_enqueue (rearmed F I s) I (dropWhile (expired s) rest)
                else sleep_insert (rearmed F I s) I (dropWhile (expired s) rest))"
          using ih inP unfolding ex al ra by (simp only: if_True simp_thms)
        then show ?thesis
          unfolding eq using ev inP2 by (simp only: la R if_True simp_thms)
      next
        case ninP: False
        then have ninP2: "\<not> (I \<in> set (takeWhile (expired s) (h # rest)) \<and> cond_name (alarms s I) = ''interrupter'')"
          unfolding P using hn by auto
        have "alarms (isr_loop F I ?s1) = alarms s
          \<and> sleep_list (isr_loop F I ?s1) = dropWhile (expired s) rest"
          using ih ninP unfolding ex al ra by (simp only: if_False simp_thms)
        then show ?thesis
          unfolding eq using ev ninP2 by (simp only: R if_False simp_thms)
      qed
    qed
  qed
qed

lemma filter_sleep_insert_other:
  "al \<notin> set xs \<Longrightarrow> filter (\<lambda>a. a \<noteq> al) (sleep_insert A al xs) = xs"
  by (induction xs) (auto simp: filter_id_conv)

lemma filter_sleep_enqueue_other:
  "al \<notin> set xs \<Longrightarrow> filter (\<lambda>a. a \<noteq> al) (sleep_enqueue A al xs) = xs"
  by (cases xs) (auto simp: sleep_enqueue_def filter_sleep_insert_other filter_id_conv)

lemma sleep_enqueue_mem: "al \<in> set (sleep_enqueue A al xs)"
  by (cases xs) (auto simp: sleep_enqueue_def sleep_insert_mem)

text \<open>
  C6, as the code has it. The sleep list holds each alarm once and no alarm other than the
  preemption alarm \<open>I\<close> is named \<open>interrupter\<close>. On a timer interrupt the alarms at the
  head of the sleep list whose wake time is strictly less than the current time, the
  expired head, are taken off the list; an alarm whose wake time equals the current time
  stays. Every alarm of the expired head other than the preemption alarm has its condition
  broadcast, in list order, and nothing else is broadcast. When the preemption alarm is
  not in the expired head, the list is left without the expired head and no wake time has
  changed. When it is, its wake time becomes the current time plus 20 ms, saturating, no
  other wake time changes, and it is back on the list behind the alarms that wake before
  it: the other alarms of the list are those behind the expired head, in their order.
  Afterwards the timer interrupt is disabled when the list is empty, and otherwise the head
  is not expired and the compare register holds its wake time.
\<close>

theorem handle_timer_interrupt_strict:
  assumes "distinct (sleep_list s)"
    and "\<forall>a \<in> set (sleep_list s). cond_name (alarms s a) = ''interrupter'' \<longrightarrow> a = I"
  shows
   "(sleep_list (handle_timer_interrupt F I s) = [] \<longrightarrow> \<not> stie (handle_timer_interrupt F I s))
  \<and> (\<forall>h rest. sleep_list (handle_timer_interrupt F I s) = h # rest \<longrightarrow>
        mtime s \<le> twake (alarms (handle_timer_interrupt F I s) h)
      \<and> stcmp (handle_timer_interrupt F I s) = twake (alarms (handle_timer_interrupt F I s) h))
  \<and> events (handle_timer_interrupt F I s)
      = events s @ map CondBroadcast
          (filter (\<lambda>a. cond_name (alarms s a) \<noteq> ''interrupter'')
             (takeWhile (expired s) (sleep_list s)))
  \<and> (if I \<in> set (takeWhile (expired s) (sleep_list s)) \<and> cond_name (alarms s I) = ''interrupter''
      then alarms (handle_timer_interrupt F I s) = rearmed F I s
         \<and> sleep_list (handle_timer_interrupt F I s) =
              (if last (takeWhile (expired s) (sleep_list s)) = I
               then sleep_enqueue (rearmed F I s) I (dropWhile (expired s) (sleep_list s))
               else sleep_insert (rearmed F I s) I (dropWhile (expired s) (sleep_list s)))
         \<and> I \<in> set (sleep_list (handle_timer_interrupt F I s))
         \<and> filter (\<lambda>a. a \<noteq> I) (sleep_list (handle_timer_interrupt F I s))
             = dropWhile (expired s) (sleep_list s)
      else alarms (handle_timer_interrupt F I s) = alarms s
         \<and> sleep_list (handle_timer_interrupt F I s) = dropWhile (expired s) (sleep_list s))"
proof -
  let ?s' = "isr_loop F I s"
  let ?P = "takeWhile (expired s) (sleep_list s)"
  let ?R = "dropWhile (expired s) (sleep_list s)"
  have fields: "sleep_list (handle_timer_interrupt F I s) = sleep_list ?s'"
    "alarms (handle_timer_interrupt F I s) = alarms ?s'"
    "events (handle_timer_interrupt F I s) = events ?s'"
    by (simp_all add: handle_timer_interrupt_def Let_def split: list.splits)
  have a: "sleep_list (handle_timer_interrupt F I s) = [] \<longrightarrow> \<not> stie (handle_timer_interrupt F I s)"
    by (simp add: handle_timer_interrupt_def Let_def split: list.splits)
  have b: "\<forall>h rest. sleep_list (handle_timer_interrupt F I s) = h # rest \<longrightarrow>
        mtime s \<le> twake (alarms (handle_timer_interrupt F I s) h)
      \<and> stcmp (handle_timer_interrupt F I s) = twake (alarms (handle_timer_interrupt F I s) h)"
    using isr_loop_head [of F I s]
    by (auto simp: handle_timer_interrupt_def Let_def split: list.splits)
  note g = isr_loop_general [OF refl assms, of F]
  have c: "events (handle_timer_interrupt F I s)
      = events s @ map CondBroadcast (filter (\<lambda>a. cond_name (alarms s a) \<noteq> ''interrupter'') ?P)"
    unfolding fields using g by (rule conjunct1)
  have d: "if I \<in> set ?P \<and> cond_name (alarms s I) = ''interrupter''
      then alarms (handle_timer_interrupt F I s) = rearmed F I s
         \<and> sleep_list (handle_timer_interrupt F I s) =
              (if last ?P = I then sleep_enqueue (rearmed F I s) I ?R
               else sleep_insert (rearmed F I s) I ?R)
         \<and> I \<in> set (sleep_list (handle_timer_interrupt F I s))
         \<and> filter (\<lambda>a. a \<noteq> I) (sleep_list (handle_timer_interrupt F I s)) = ?R
      else alarms (handle_timer_interrupt F I s) = alarms s
         \<and> sleep_list (handle_timer_interrupt F I s) = ?R"
  proof (cases "I \<in> set ?P \<and> cond_name (alarms s I) = ''interrupter''")
    case True
    have "distinct (?P @ ?R)" using assms(1) by (simp only: takeWhile_dropWhile_id)
    then have "set ?P \<inter> set ?R = {}" by (simp only: distinct_append)
    then have nR: "I \<notin> set ?R" using True by blast
    have sl: "alarms ?s' = rearmed F I s
          \<and> sleep_list ?s' = (if last ?P = I then sleep_enqueue (rearmed F I s) I ?R
                              else sleep_insert (rearmed F I s) I ?R)"
      using g True by (simp only: if_True simp_thms)
    have mem: "I \<in> set (sleep_list ?s')"
      using sl by (simp add: sleep_enqueue_mem sleep_insert_mem)
    have fl: "filter (\<lambda>a. a \<noteq> I) (sleep_list ?s') = ?R"
      using sl nR by (simp add: filter_sleep_enqueue_other filter_sleep_insert_other)
    show ?thesis unfolding fields using True sl mem fl by (simp only: if_True simp_thms)
  next
    case False
    have "alarms ?s' = alarms s \<and> sleep_list ?s' = ?R"
      using g False by (simp only: if_False simp_thms)
    then show ?thesis unfolding fields using False by (simp only: if_False simp_thms)
  qed
  from a b c d show ?thesis by (intro conjI)
qed

text \<open>The theorem at \<open>preempt_due\<close>, at 10 MHz: the preemption alarm, alarm 0, and alarm
  1 are expired. Alarm 1 is broadcast, the preemption alarm is back on the list with the
  wake time 200010, behind alarm 2, which stays, and the compare register is set to 10.\<close>

theorem handle_timer_interrupt_strict_witness:
  "distinct (sleep_list preempt_due)
 \<and> takeWhile (expired preempt_due) (sleep_list preempt_due) = [0, 1]
 \<and> sleep_list (handle_timer_interrupt 10000000 0 preempt_due) = [2, 0]
 \<and> events (handle_timer_interrupt 10000000 0 preempt_due) = [CondBroadcast 1]
 \<and> twake (alarms (handle_timer_interrupt 10000000 0 preempt_due) 0) = 200010
 \<and> stcmp (handle_timer_interrupt 10000000 0 preempt_due) = 10"
proof -
  have h1: "distinct (sleep_list preempt_due)" by (simp add: preempt_due_def)
  have h2: "\<forall>a \<in> set (sleep_list preempt_due).
              cond_name (alarms preempt_due a) = ''interrupter'' \<longrightarrow> a = 0"
    by (simp add: preempt_due_def)
  have td: "takeWhile (expired preempt_due) (sleep_list preempt_due) = [0, 1]"
    "dropWhile (expired preempt_due) (sleep_list preempt_due) = [2]"
    by (simp_all add: preempt_due_def expired_def)
  have nm: "cond_name (alarms preempt_due 0) = ''interrupter''"
    "cond_name (alarms preempt_due 1) \<noteq> ''interrupter''"
    by (simp_all add: preempt_due_def)
  have ra: "twake (rearmed 10000000 0 preempt_due 0) = 200010"
    "twake (rearmed 10000000 0 preempt_due 2) = 10"
    by (simp_all add: rearmed_def rearm_time_def preempt_due_def UINT64_MAX_def)
  note t = handle_timer_interrupt_strict [OF h1 h2, of 10000000]
  have ev: "events (handle_timer_interrupt 10000000 0 preempt_due) = [CondBroadcast 1]"
    using t nm by (simp add: td) (simp add: preempt_due_def)
  have al: "alarms (handle_timer_interrupt 10000000 0 preempt_due) = rearmed 10000000 0 preempt_due"
    and sl: "sleep_list (handle_timer_interrupt 10000000 0 preempt_due)
               = sleep_insert (rearmed 10000000 0 preempt_due) 0 [2]"
    using t nm by (simp_all add: td)
  have sl2: "sleep_list (handle_timer_interrupt 10000000 0 preempt_due) = [2, 0]"
    using sl ra by simp
  have st: "stcmp (handle_timer_interrupt 10000000 0 preempt_due) = 10"
    using t sl2 al ra by simp
  show ?thesis using h1 td(1) sl2 ev al ra st by simp
qed

text \<open>
  C6 as stated fails at \<open>due_now\<close>: the only alarm has its wake time equal to the current
  time, and the handler leaves it on the list and broadcasts nothing.
\<close>

theorem handle_timer_interrupt_equal_stays:
  "twake (alarms due_now 1) \<le> mtime due_now
 \<and> sleep_list due_now = [1]
 \<and> sleep_list (handle_timer_interrupt 10000000 0 due_now) = [1]
 \<and> events (handle_timer_interrupt 10000000 0 due_now) = []"
  by (simp add: handle_timer_interrupt_def due_now_def isr_loop.simps)

text \<open>
  C10. When the advanced wake time of the alarm (its last wake time plus the tick count,
  saturating at the maximum) is strictly earlier than the current time, \<open>alarm_sleep\<close>
  returns at once: the sleep list, the compare register and the timer interrupt enable are
  as before and no condition wait is recorded; only the wake time of the alarm has changed.
\<close>

theorem alarm_sleep_past_returns:
  assumes "(if UINT64_MAX - twake (alarms s al) < tcnt then UINT64_MAX
            else twake (alarms s al) + tcnt) < mtime s"
  shows "sleep_list (alarm_sleep al tcnt s) = sleep_list s
       \<and> stcmp (alarm_sleep al tcnt s) = stcmp s
       \<and> stie (alarm_sleep al tcnt s) = stie s
       \<and> events (alarm_sleep al tcnt s) = events s
       \<and> mtime (alarm_sleep al tcnt s) = mtime s
       \<and> (\<forall>a. a \<noteq> al \<longrightarrow> alarms (alarm_sleep al tcnt s) a = alarms s a)"
  using assms by (simp add: alarm_sleep_def Let_def)

text \<open>The theorem at \<open>two_sleepers\<close>: alarm 1 (last wake time 3) sleeping 4 more ticks at
  time 10 has the wake time 7, which has passed.\<close>

theorem alarm_sleep_past_returns_witness:
  "(if UINT64_MAX - twake (alarms two_sleepers 1) < 4 then UINT64_MAX
    else twake (alarms two_sleepers 1) + 4) < mtime two_sleepers
 \<and> sleep_list (alarm_sleep 1 4 two_sleepers) = [1, 2]
 \<and> stcmp (alarm_sleep 1 4 two_sleepers) = 3
 \<and> stie (alarm_sleep 1 4 two_sleepers)
 \<and> events (alarm_sleep 1 4 two_sleepers) = []"
proof -
  have h: "(if UINT64_MAX - twake (alarms two_sleepers 1) < 4 then UINT64_MAX
            else twake (alarms two_sleepers 1) + 4) < mtime two_sleepers"
    by (simp add: two_sleepers_def UINT64_MAX_def)
  from alarm_sleep_past_returns [OF h] h show ?thesis
    by (simp add: two_sleepers_def)
qed

section \<open>io.c: reference counts\<close>

text \<open>On an endpoint whose close function is not \<open>seekio_close\<close>, \<open>ioclose\<close> lowers the
  count by one and calls the close function exactly when the count has become zero.\<close>

lemma ioclose_plain:
  assumes "a \<noteq> 0" and "intf_close (ios s a) = Some c" and "c \<noteq> Some seekio_close_fn"
    and "refcnt (ios s a) \<noteq> 0"
  shows "\<exists>s'. ioclose a s = Some (Inr s')
           \<and> refcnt (ios s' a) = refcnt (ios s a) - 1
           \<and> (\<forall>b. b \<noteq> a \<longrightarrow> ios s' b = ios s b)
           \<and> close_invoked s' =
               close_invoked s @ (if refcnt (ios s a) = 1 \<and> c \<noteq> None then [a] else [])"
  using assms by (subst ioclose.simps) (auto simp: Let_def)


section \<open>io.c: the seekable adapter\<close>

lemma blk_mask_pow2: "k < 31 \<Longrightarrow> blk_mask (2 ^ k) = NOT (mask k)"
  unfolding blk_mask_def mask_eq_decr_exp [symmetric]
  by (rule bit_word_eqI) (auto simp: bit_word_scast_iff bit_not_iff bit_mask_iff)

lemma and_not_mask_push: "(x::'a::len word) AND NOT (mask k) = push_bit k (drop_bit k x)"
  by (rule bit_word_eqI) (auto simp: bit_simps)

lemma and_not_mask_sub:
  assumes "k < LENGTH('a)"
  shows "(x::'a::len word) AND NOT (mask k) = x - x mod 2 ^ k"
proof -
  from assms have p: "(0::'a word) < 2 ^ k" by (simp add: word_2p_lem word_size)
  have "push_bit k (drop_bit k x) + take_bit k x = x" by (rule bits_ident)
  then have "push_bit k (drop_bit k x) = x - take_bit k x" by (simp add: algebra_simps)
  moreover have "take_bit k x = x mod 2 ^ k"
    using word_mod_2p_is_mask [OF p, of x] by (simp add: take_bit_eq_mask)
  ultimately show ?thesis by (simp add: and_not_mask_push)
qed

lemma scast_pow2: "k < 31 \<Longrightarrow> (scast (2 ^ k :: u32) :: u64) = 2 ^ k"
  by (rule bit_word_eqI) (auto simp: bit_word_scast_iff bit_simps)

lemma sint_small: "uint (x::u64) < 2 ^ 63 \<Longrightarrow> sint x = uint x"
proof -
  assume a: "uint x < 2 ^ 63"
  have "- (2 ^ 63) \<le> uint x" by (rule order_trans [of _ 0]) simp_all
  then have "signed_take_bit 63 (uint x) = uint x"
    using a by (rule signed_take_bit_int_eq_self)
  then show ?thesis by (simp add: sint_uint)
qed

lemma uint_nonneg_small: "0 \<le>s (x::u64) \<Longrightarrow> uint x < 2 ^ 63"
proof -
  assume "0 \<le>s x"
  then have nn: "0 \<le> sint x" by (simp add: word_sle_eq)
  have lt: "sint x < 2 ^ 63" using sint_lt [of x] by simp
  have "uint x = take_bit 64 (sint x)" using uint_sint [of x] by simp
  also have "\<dots> = sint x" using nn lt by (simp add: take_bit_int_eq_self)
  finally show ?thesis using lt by simp
qed

lemma sless_pow2:
  assumes "uint (x::u64) < 2 ^ 63" "k < 31"
  shows "(x <s 2 ^ k) = (x < 2 ^ k)"
proof -
  have p: "(0::u64) < 2 ^ k" using assms(2) by (simp add: word_2p_lem word_size)
  have u: "uint (2 ^ k :: u64) = 2 ^ k" using p by (rule uint_2p)
  moreover have "(2::int) ^ k < 2 ^ 63"
    using assms(2) power_strict_increasing [of k 63 "2::int"] by simp
  ultimately have "sint (2 ^ k :: u64) = 2 ^ k" by (simp add: sint_small)
  then show ?thesis
    using assms(1) by (simp add: word_sless_alt sint_small word_less_alt u)
qed

lemma clamp_small:
  assumes "0 \<le>s (b::u64)"
  shows "uint (if d < b then d else b) < 2 ^ 63"
  using uint_nonneg_small [OF assms] by (auto simp: word_less_alt)

lemma seekio_read_rounds:
  assumes b: "blksz sio = 2 ^ k" and k: "k < 31" and nn: "0 \<le>s sz"
  shows "seekio_read bk sio sz =
           (let n = (if end_pos sio - pos sio < sz then end_pos sio - pos sio else sz)
            in if n = 0 then (Val 0, sio)
               else if n < 2 ^ k then (Err EINVAL, sio)
               else (ioreadat bk (pos sio) (n - n mod 2 ^ k),
                     sio\<lparr>pos := pos sio + count_of (ioreadat bk (pos sio) (n - n mod 2 ^ k))\<rparr>))"
proof -
  have m: "x AND blk_mask (blksz sio) = x - x mod 2 ^ k" for x :: u64
    using k by (simp add: b blk_mask_pow2 and_not_mask_sub)
  have s: "uint x < 2 ^ 63 \<Longrightarrow> (x <s scast (blksz sio)) = (x < 2 ^ k)" for x :: u64
    using k by (simp add: b scast_pow2 sless_pow2)
  show ?thesis
    using s [OF clamp_small [OF nn, of "end_pos sio - pos sio"]]
    by (simp add: seekio_read_def Let_def m)
qed

lemma seekio_write_rounds:
  assumes b: "blksz sio = 2 ^ k" and k: "k < 31" and nn: "0 \<le>s sz"
  shows "seekio_write bk sio sz =
           (if sz = 0 then (Val 0, sio)
            else if sz < 2 ^ k then (Err EINVAL, sio)
            else if end_pos sio - pos sio < sz - sz mod 2 ^ k then
              (if UINT64_MAX - pos sio < sz - sz mod 2 ^ k then (Err EINVAL, sio)
               else case ioctl bk IOCTL_SETEND (pos sio + (sz - sz mod 2 ^ k)) of
                      (Err c, _) \<Rightarrow> (Err c, sio)
                    | (Val r, e') \<Rightarrow>
                        if r \<noteq> 0 then (Val (scast r), sio)
                        else (iowriteat bk (pos sio) (sz - sz mod 2 ^ k),
                              sio\<lparr>end_pos := e',
                                  pos := pos sio + count_of (iowriteat bk (pos sio) (sz - sz mod 2 ^ k))\<rparr>))
            else (iowriteat bk (pos sio) (sz - sz mod 2 ^ k),
                  sio\<lparr>pos := pos sio + count_of (iowriteat bk (pos sio) (sz - sz mod 2 ^ k))\<rparr>))"
proof -
  have m: "x AND blk_mask (blksz sio) = x - x mod 2 ^ k" for x :: u64
    using k by (simp add: b blk_mask_pow2 and_not_mask_sub)
  have s: "uint x < 2 ^ 63 \<Longrightarrow> (x <s scast (blksz sio)) = (x < 2 ^ k)" for x :: u64
    using k by (simp add: b scast_pow2 sless_pow2)
  show ?thesis
    using s [OF uint_nonneg_small [OF nn]]
    by (simp add: seekio_write_def Let_def m split: prod.splits ret.splits)
qed

text \<open>
  C8, as the code has it. The block size of an adapter is a power of two
  (\<open>create_seekable_io\<close> asserts it) and the request size is not negative (\<open>ioread\<close> and
  \<open>iowrite\<close> reject a negative one). A read request is first clamped to the bytes left
  before the end. A request of size zero returns 0; a request smaller than one block fails
  with \<open>EINVAL\<close>; a request of at least one block is rounded down to a multiple of the block
  size, \<open>n - n mod 2 ^ k\<close>, and that many bytes are asked of the backing endpoint at the
  current position, which then advances by the count transferred. A write that passes the
  end first sets the end of the backing endpoint and fails if that fails.
\<close>

theorem seekio_rounds_down:
  assumes b: "blksz sio = 2 ^ k" and k: "k < 31" and nn: "0 \<le>s sz"
  shows "seekio_read bk sio sz =
           (let n = (if end_pos sio - pos sio < sz then end_pos sio - pos sio else sz)
            in if n = 0 then (Val 0, sio)
               else if n < 2 ^ k then (Err EINVAL, sio)
               else (ioreadat bk (pos sio) (n - n mod 2 ^ k),
                     sio\<lparr>pos := pos sio + count_of (ioreadat bk (pos sio) (n - n mod 2 ^ k))\<rparr>))
       \<and> seekio_write bk sio sz =
           (if sz = 0 then (Val 0, sio)
            else if sz < 2 ^ k then (Err EINVAL, sio)
            else if end_pos sio - pos sio < sz - sz mod 2 ^ k then
              (if UINT64_MAX - pos sio < sz - sz mod 2 ^ k then (Err EINVAL, sio)
               else case ioctl bk IOCTL_SETEND (pos sio + (sz - sz mod 2 ^ k)) of
                      (Err c, _) \<Rightarrow> (Err c, sio)
                    | (Val r, e') \<Rightarrow>
                        if r \<noteq> 0 then (Val (scast r), sio)
                        else (iowriteat bk (pos sio) (sz - sz mod 2 ^ k),
                              sio\<lparr>end_pos := e',
                                  pos := pos sio + count_of (iowriteat bk (pos sio) (sz - sz mod 2 ^ k))\<rparr>))
            else (iowriteat bk (pos sio) (sz - sz mod 2 ^ k),
                  sio\<lparr>pos := pos sio + count_of (iowriteat bk (pos sio) (sz - sz mod 2 ^ k))\<rparr>))"
  using seekio_read_rounds [OF assms] seekio_write_rounds [OF assms] by (rule conjI)

text \<open>The theorem at \<open>adapter512\<close> (block size \<open>2 ^ 9\<close>): a request of 1300 bytes moves
  1024 bytes, a request of 100 bytes fails.\<close>

theorem seekio_rounds_down_witness:
  "blksz adapter512 = 2 ^ 9 \<and> (9::nat) < 31 \<and> 0 \<le>s (1300::u64) \<and> 0 \<le>s (100::u64)
 \<and> fst (seekio_read willing_backing adapter512 1300) = Val 1024
 \<and> fst (seekio_write willing_backing adapter512 1300) = Val 1024
 \<and> fst (seekio_read willing_backing adapter512 100) = Err EINVAL
 \<and> fst (seekio_write willing_backing adapter512 100) = Err EINVAL"
proof -
  have b: "blksz adapter512 = 2 ^ 9" by (simp add: adapter512_def)
  have k: "(9::nat) < 31" by simp
  have n1: "0 \<le>s (1300::u64)" and n2: "0 \<le>s (100::u64)" by (simp_all add: word_sle_eq)
  from seekio_rounds_down [OF b k n1, of willing_backing]
       seekio_rounds_down [OF b k n2, of willing_backing] b k n1 n2
  show ?thesis
    by (simp add: adapter512_def willing_backing_def ioreadat_def iowriteat_def word_sless_alt
        Let_def)
qed

text \<open>
  C8 as stated fails at \<open>adapter512\<close>: requests of 768 bytes, which is not a multiple of
  the block size 512, do not fail but move 512 bytes, and a read of size zero, which is
  not a positive multiple, does not fail either.
\<close>

theorem seekio_partial_block_not_rejected:
  "fst (seekio_read willing_backing adapter512 768) = Val 512
 \<and> fst (seekio_write willing_backing adapter512 768) = Val 512
 \<and> fst (seekio_read willing_backing adapter512 0) = Val 0"
  by (simp add: seekio_read_def seekio_write_def willing_backing_def adapter512_def Let_def
      ioreadat_def iowriteat_def blk_mask_def word_sless_alt count_of_def)

section \<open>io.c: the pipe\<close>




section \<open>memory.c: the physical page pool\<close>

lemma exact_fit_none: "\<forall>c \<in> set cs. snd c < cnt \<Longrightarrow> exact_fit cnt cs = None"
  by (induction cs) auto

lemma best_fit_none:
  "\<forall>c \<in> set cs. snd c < cnt \<Longrightarrow> best_fit cnt all i cs target = target"
  by (induction cs arbitrary: i target) (auto simp: not_less [symmetric] dest: less_asym)

text \<open>With no chunk of at least \<open>cnt\<close> pages both loops of \<open>alloc_phys_pages\<close> come up
  empty, \<open>target\<close> is \<open>NULL\<close>, and \<open>target->pagecnt\<close> is read.\<close>

lemma alloc_exhausted:
  "\<forall>c \<in> set cs. snd c < ucast cnt \<Longrightarrow> alloc_phys_pages cnt cs = Inl NullDeref"
  by (simp add: alloc_phys_pages_def exact_fit_none best_fit_none)

text \<open>
  C5 at an empty pool, and at a pool of a two-page and a three-page chunk asked for four
  pages: the allocator does not return \<open>NULL\<close>, it reads \<open>target->pagecnt\<close> through the
  null \<open>target\<close>.
\<close>

theorem alloc_phys_pages_exhausted_faults:
  "alloc_phys_pages 1 [] = Inl NullDeref
 \<and> alloc_phys_pages 4 [(0x80200000, 2), (0x80300000, 3)] = Inl NullDeref"
  by (simp add: alloc_phys_pages_def)

section \<open>memory.c: the user page fault\<close>

lemma as_numbers: "ROUND_DOWN 0xC0000123 = 0xC0000000" "VPN2 0xC0000000 = 3"
  "VPN1 0xC0000000 = 0" "VPN0 0xC0000000 = 0" "wellformed 0xC0000123"
  "mtag_to_ptab 0x8000000000080010 = 0x80010000"
  "pageptr (ppn (ptab_pte 0x80011000 0)) = 0x80011000"
  "pageptr (ppn (ptab_pte 0x80012000 0)) = 0x80012000"
  by code_simp+

lemma as_tables_simps: "as_tables l 0x80010000 3 = ptab_pte 0x80011000 0"
  "as_tables l 0x80011000 0 = ptab_pte 0x80012000 0" "as_tables l 0x80012000 0 = l"
  by (simp_all add: as_tables_def)

lemma PTE_VALID_bit: "PTE_VALID e = bit (flags e) 0"
proof -
  have "flags e AND 1 = (if bit (flags e) 0 then 1 else 0)"
    by (rule bit_word_eqI) (auto simp: bit_simps intro: gr0I)
  then show ?thesis by (simp add: PTE_VALID_def PTE_V_def)
qed

lemma valid_simps: "PTE_VALID (ptab_pte a g)" "PTE_VALID (leaf_pte a f)" "\<not> PTE_VALID null_pte"
  by (simp_all add: PTE_VALID_bit ptab_pte_def leaf_pte_def null_pte_def bit_simps PTE_V_def)

text \<open>
  The handler on an address whose leaf entry is valid already: in the user range, with a
  frame handed out and a descent to the level-0 table \<open>pt0\<close> that does not fault,
  \<open>map_page\<close> leaves the entry alone and returns the address, and the handler returns 1
  in the state that the descent left. The frame is in no table and not back in the pool.
\<close>

lemma handle_umode_page_fault_leaf_kept:
  assumes "ustart \<le> vma" and "vma < uend"
    and "alloc_phys_page s = Inr (pp, s1)" and "pp \<noteq> 0"
    and "wellformed vma" and "ROUND_DOWN vma \<noteq> 0"
    and "map_walk (ROUND_DOWN vma) s1 = Inr (pt0, s2)"
    and "PTE_VALID (ptabs s2 pt0 (VPN0 (ROUND_DOWN vma)))"
  shows "handle_umode_page_fault ustart uend vma s = Inr (1, s2)"
  using assms by (simp add: handle_umode_page_fault_def map_page_def Let_def)

text \<open>The sibling path: when \<open>map_page\<close> returns \<open>NULL\<close>, which it does for an address
  that is not well-formed, the handler gives the frame back and returns 0.\<close>

lemma handle_umode_page_fault_frees:
  assumes "ustart \<le> vma" and "vma < uend"
    and "alloc_phys_page s = Inr (pp, s1)" and "pp \<noteq> 0"
    and "\<not> wellformed vma"
  shows "handle_umode_page_fault ustart uend vma s = Inr (0, free_phys_page pp s1)"
  using assms by (simp add: handle_umode_page_fault_def map_page_def Let_def)

text \<open>
  C4. The handler returns 1 only when a frame was allocated and installed with the read,
  write and user permissions. The code does not do that: at \<open>as_mapped\<close>, where the
  faulting address \<open>0xC0000123\<close> of the user range is mapped read-only (a store faults
  there), the handler returns 1, the frame \<open>0x80100000\<close> has left the pool, and no page
  table has changed: the leaf entry is still the read-only mapping of \<open>0x80020000\<close>, so
  the frame is neither installed nor given back.
\<close>

theorem handle_umode_page_fault_valid_leaf:
  "handle_umode_page_fault 0xC0000000 0x100000000 0xC0000123 as_mapped
     = Inr (1, as_mapped\<lparr>free_chunk_list := [(0x80101000, 3)]\<rparr>)
 \<and> free_chunk_list as_mapped = [(0x80100000, 4)]
 \<and> ptabs (as_mapped\<lparr>free_chunk_list := [(0x80101000, 3)]\<rparr>) = ptabs as_mapped
 \<and> ptabs as_mapped 0x80012000 (VPN0 (ROUND_DOWN 0xC0000123)) = leaf_pte 0x80020000 (PTE_R OR PTE_U)
 \<and> leaf_pte 0x80020000 (PTE_R OR PTE_U) \<noteq> leaf_pte 0x80100000 (PTE_R OR PTE_W OR PTE_U)"
proof -
  have "leaf_pte 0x80020000 (PTE_R OR PTE_U) \<noteq> leaf_pte 0x80100000 (PTE_R OR PTE_W OR PTE_U)"
    by code_simp
  then show ?thesis
    by (simp add: handle_umode_page_fault_def alloc_phys_page_def alloc_phys_pages_def
      map_page_def map_walk_def next_table_def as_numbers Let_def as_mapped_def as_tables_simps
      active_space_ptab_def valid_simps PAGE_SIZE_def)
qed

section \<open>dev/vioblk.c\<close>

lemma read_blocks_ok:
  assumes "unat b \<le> VIOBLK_BLKSZ"
    and "\<forall>i \<in> set is. fst (dev (first + of_nat i)) AND VIRTIO_BLK_S_IOERR = 0
                      \<and> fst (dev (first + of_nat i)) AND VIRTIO_BLK_S_UNSUPP = 0"
  shows "read_blocks dev b first is
           = Inr (None, map (\<lambda>i. (unat (word_of_nat i * b :: u32),
                                   map (snd (dev (first + of_nat i))) [0..<unat b])) is)"
  using assms by (induction "is") (auto simp: Let_def split: prod.splits)

lemma unat_ucast_32_64: "unat (ucast (b::u32) :: u64) = unat b"
proof -
  have "unat b < 2 ^ 32" using unsigned_less [of b, where ?'a=nat] by simp
  then have "unat b < 2 ^ 64" by simp
  then show ?thesis by (simp add: unsigned_ucast_eq take_bit_nat_eq_self)
qed

lemma numBlocks_small:
  assumes "unat byteread div unat blk < 2 ^ 31"
  shows "numBlocks byteread blk = unat byteread div unat blk"
proof -
  let ?q = "byteread div ucast blk"
  have q: "unat ?q = unat byteread div unat blk"
    by (simp add: unat_div unat_ucast_32_64)
  have lt: "unat ?q < 2 ^ 31" using assms q by simp
  then have "unat ?q < 2 ^ 32" by simp
  then have u: "unat (ucast ?q :: u32) = unat ?q"
    by (simp add: unsigned_ucast_eq take_bit_nat_eq_self)
  have "unat (ucast ?q :: u32) < 2 ^ 31" using lt u by simp
  then have "(ucast ?q :: u32) < 2 ^ 31" by (simp add: word_less_nat_alt)
  then have "uint (ucast ?q :: u32) < 2 ^ 31" by (simp add: word_less_alt)
  moreover have "- (2 ^ 31) \<le> uint (ucast ?q :: u32)" by (rule order_trans [of _ 0]) simp_all
  ultimately have "signed_take_bit 31 (uint (ucast ?q :: u32)) = uint (ucast ?q :: u32)"
    by (intro signed_take_bit_int_eq_self)
  then have "sint (ucast ?q :: u32) = uint (ucast ?q :: u32)" by (simp add: sint_uint)
  then have "nat (sint (ucast ?q :: u32)) = unat (ucast ?q :: u32)" by simp
  then show ?thesis using q u by (simp add: numBlocks_def)
qed

text \<open>The offset of the copy of round \<open>i\<close> is \<open>i * blkSize\<close> as long as the product
  fits 32 bits.\<close>

lemma copy_offset:
  fixes b :: u32
  assumes "i * unat b < 2 ^ 32"
  shows "unat (word_of_nat i * b :: u32) = i * unat b"
proof (cases "unat b = 0")
  case True
  then have "b = 0" by (simp add: unat_eq_0)
  then show ?thesis by simp
next
  case False
  then have "i \<le> i * unat b" by simp
  then have "i < 2 ^ 32" using assms by (rule le_less_trans)
  then have ui: "unat (word_of_nat i :: u32) = i" by (simp add: unsigned_of_nat take_bit_nat_eq_self)
  have "unat (word_of_nat i :: u32) * unat b < 2 ^ LENGTH(32)" using assms ui by simp
  then have "unat (word_of_nat i * b :: u32) = unat (word_of_nat i :: u32) * unat b"
    by (rule unat_mult_lem [THEN iffD1])
  then show ?thesis using ui by simp
qed

text \<open>The device end is a multiple of a block size that divides 512, also when the product
  of capacity and block size wraps in 64 bits.\<close>

lemma end_multiple:
  fixes c :: u64 and b :: u32
  assumes "unat b dvd 512"
  shows "unat b dvd unat (c * ucast b)"
proof -
  have "unat (c * ucast b) = unat c * unat b mod 2 ^ 64"
    by (simp add: unat_word_ariths unat_ucast_32_64)
  moreover have "unat b dvd (2::nat) ^ 64"
    using assms by (rule dvd_trans) simp
  ultimately show ?thesis by (simp add: dvd_mod)
qed

text \<open>The clamped read of a block-aligned position on a device that answers every request
  without error.\<close>

lemma vioblk_clamped:
  assumes lt: "p < capacity cfg * ucast (blk_size cfg)"
    and nn: "\<not> bn" and pos: "0 <s bufsz"
    and cross: "capacity cfg * ucast (blk_size cfg) < p + bufsz"
    and bd: "unat (blk_size cfg) dvd VIOBLK_BLKSZ"
    and al: "unat (blk_size cfg) dvd unat p"
    and small: "unat (capacity cfg * ucast (blk_size cfg) - p) < 2 ^ 31"
    and ok: "\<forall>i < unat (capacity cfg * ucast (blk_size cfg) - p) div unat (blk_size cfg).
               fst (dev (p div ucast (blk_size cfg) + of_nat i)) AND VIRTIO_BLK_S_IOERR = 0
             \<and> fst (dev (p div ucast (blk_size cfg) + of_nat i)) AND VIRTIO_BLK_S_UNSUPP = 0"
  shows "vioblk_readat cfg dev p bn bufsz
           = Inr (Val (capacity cfg * ucast (blk_size cfg) - p),
                  map (\<lambda>i. (i * unat (blk_size cfg),
                             map (snd (dev (p div ucast (blk_size cfg) + of_nat i)))
                                 [0..<unat (blk_size cfg)]))
                      [0..<unat (capacity cfg * ucast (blk_size cfg) - p) div unat (blk_size cfg)])
       \<and> unat (capacity cfg * ucast (blk_size cfg) - p) div unat (blk_size cfg) * unat (blk_size cfg)
           = unat (capacity cfg * ucast (blk_size cfg) - p)"
proof -
  let ?b = "blk_size cfg"
  let ?e = "capacity cfg * ucast ?b"
  let ?n = "unat (?e - p) div unat ?b"
  let ?first = "p div ucast ?b"
  have bnz: "?b \<noteq> 0" using lt by auto
  then have ubnz: "0 < unat ?b" by (simp add: unat_gt_0)
  have ble: "unat ?b \<le> VIOBLK_BLKSZ" using bd by (rule dvd_imp_le) simp
  have pz: "bufsz \<noteq> 0" "\<not> bufsz <s 0" using pos by (auto simp: word_sless_alt)
  have ne: "p \<noteq> ?e" "\<not> ?e < p" using lt by auto
  have nle: "?n \<le> unat (?e - p)" by (rule div_le_dividend)
  have nb: "numBlocks (?e - p) ?b = ?n"
    using le_less_trans [OF nle small] by (rule numBlocks_small)
  have okk: "\<forall>i \<in> set [0..<?n]. fst (dev (?first + of_nat i)) AND VIRTIO_BLK_S_IOERR = 0
                 \<and> fst (dev (?first + of_nat i)) AND VIRTIO_BLK_S_UNSUPP = 0"
    using ok by simp
  have rb: "read_blocks dev ?b ?first [0..<?n]
              = Inr (None, map (\<lambda>i. (unat (word_of_nat i * ?b :: u32),
                                      map (snd (dev (?first + of_nat i))) [0..<unat ?b])) [0..<?n])"
    using ble okk by (rule read_blocks_ok)
  have ple: "p \<le> ?e" using lt by simp
  have usub: "unat (?e - p) = unat ?e - unat p" using ple by (simp add: unat_sub)
  have "unat ?b dvd unat (?e - p)"
    unfolding usub using end_multiple [OF bd] al by (rule dvd_diff_nat)
  then have len: "?n * unat ?b = unat (?e - p)" by simp
  have off: "unat (word_of_nat i * ?b :: u32) = i * unat ?b" if "i \<in> set [0..<?n]" for i
  proof (rule copy_offset)
    have "i * unat ?b \<le> ?n * unat ?b" using that by simp
    also have "\<dots> < 2 ^ 31" using len small by simp
    finally show "i * unat ?b < 2 ^ 32" by simp
  qed
  have cc: "map (\<lambda>i. (unat (word_of_nat i * ?b :: u32),
                       map (snd (dev (?first + of_nat i))) [0..<unat ?b])) [0..<?n]
          = map (\<lambda>i. (i * unat ?b, map (snd (dev (?first + of_nat i))) [0..<unat ?b])) [0..<?n]"
    by (rule map_cong [OF refl]) (simp only: off)
  have res: "vioblk_readat cfg dev p bn bufsz
        = Inr (Val (?e - p),
               map (\<lambda>i. (unat (word_of_nat i * ?b :: u32),
                          map (snd (dev (?first + of_nat i))) [0..<unat ?b])) [0..<?n])"
    using ne nn pz bnz cross rb nb by (simp add: vioblk_readat_def Let_def)
  show ?thesis using res cc len by (simp only:)
qed

text \<open>On the path that divides by the block size the block size is not zero: a position
  that is neither at nor past the end lies below it, and the end is a multiple of the block
  size.\<close>

lemma vioblk_readat_no_division_by_zero: "vioblk_readat cfg dev p bn bufsz \<noteq> Inl DivByZero"
proof (cases "blk_size cfg = 0")
  case True
  have "p = 0 \<or> 0 < p" using word_neq_0_conv [of p] by blast
  with True show ?thesis by (auto simp: vioblk_readat_def Let_def)
next
  case False
  have "read_blocks dev b first is \<noteq> Inl DivByZero" for b first "is"
    by (induction "is") (auto simp: Let_def split: prod.splits sum.splits)
  with False show ?thesis
    by (auto simp: vioblk_readat_def Let_def split: prod.splits option.splits sum.splits)
qed

text \<open>
  C3, as the code has it. A read at the device end returns 0. A read past the device end
  returns \<open>EINVAL\<close>. A read with a buffer and a positive length whose length crosses the
  end (\<open>pos + bufsz > end\<close>) is clamped, when the block size divides the 512 bytes of the
  driver's buffer, the position is a multiple of the block size that lies below the end by
  less than \<open>2^31\<close> bytes, and the device answers every request without error: the blocks
  from the position to the end are copied into the buffer one behind the other from its
  start, capacity minus position bytes in all, and that count is returned.
\<close>

theorem vioblk_readat_cases:
  "(p = capacity cfg * ucast (blk_size cfg) \<longrightarrow>
      vioblk_readat cfg dev p bn bufsz = Inr (Val 0, []))
 \<and> (capacity cfg * ucast (blk_size cfg) < p \<longrightarrow>
      vioblk_readat cfg dev p bn bufsz = Inr (Err EINVAL, []))
 \<and> (p < capacity cfg * ucast (blk_size cfg) \<and> \<not> bn \<and> 0 <s bufsz
      \<and> capacity cfg * ucast (blk_size cfg) < p + bufsz
      \<and> unat (blk_size cfg) dvd VIOBLK_BLKSZ
      \<and> unat (blk_size cfg) dvd unat p
      \<and> unat (capacity cfg * ucast (blk_size cfg) - p) < 2 ^ 31
      \<and> (\<forall>i < unat (capacity cfg * ucast (blk_size cfg) - p) div unat (blk_size cfg).
               fst (dev (p div ucast (blk_size cfg) + of_nat i)) AND VIRTIO_BLK_S_IOERR = 0
             \<and> fst (dev (p div ucast (blk_size cfg) + of_nat i)) AND VIRTIO_BLK_S_UNSUPP = 0) \<longrightarrow>
      vioblk_readat cfg dev p bn bufsz
           = Inr (Val (capacity cfg * ucast (blk_size cfg) - p),
                  map (\<lambda>i. (i * unat (blk_size cfg),
                             map (snd (dev (p div ucast (blk_size cfg) + of_nat i)))
                                 [0..<unat (blk_size cfg)]))
                      [0..<unat (capacity cfg * ucast (blk_size cfg) - p) div unat (blk_size cfg)])
       \<and> unat (capacity cfg * ucast (blk_size cfg) - p) div unat (blk_size cfg) * unat (blk_size cfg)
           = unat (capacity cfg * ucast (blk_size cfg) - p))"
proof (intro conjI impI)
  assume "p = capacity cfg * ucast (blk_size cfg)"
  then show "vioblk_readat cfg dev p bn bufsz = Inr (Val 0, [])"
    by (simp add: vioblk_readat_def Let_def)
next
  assume "capacity cfg * ucast (blk_size cfg) < p"
  then show "vioblk_readat cfg dev p bn bufsz = Inr (Err EINVAL, [])"
    by (auto simp: vioblk_readat_def Let_def)
next
  assume h: "p < capacity cfg * ucast (blk_size cfg) \<and> \<not> bn \<and> 0 <s bufsz
      \<and> capacity cfg * ucast (blk_size cfg) < p + bufsz
      \<and> unat (blk_size cfg) dvd VIOBLK_BLKSZ
      \<and> unat (blk_size cfg) dvd unat p
      \<and> unat (capacity cfg * ucast (blk_size cfg) - p) < 2 ^ 31
      \<and> (\<forall>i < unat (capacity cfg * ucast (blk_size cfg) - p) div unat (blk_size cfg).
               fst (dev (p div ucast (blk_size cfg) + of_nat i)) AND VIRTIO_BLK_S_IOERR = 0
             \<and> fst (dev (p div ucast (blk_size cfg) + of_nat i)) AND VIRTIO_BLK_S_UNSUPP = 0)"
  note c = vioblk_clamped [of p cfg bn bufsz dev]
  show "vioblk_readat cfg dev p bn bufsz
           = Inr (Val (capacity cfg * ucast (blk_size cfg) - p),
                  map (\<lambda>i. (i * unat (blk_size cfg),
                             map (snd (dev (p div ucast (blk_size cfg) + of_nat i)))
                                 [0..<unat (blk_size cfg)]))
                      [0..<unat (capacity cfg * ucast (blk_size cfg) - p) div unat (blk_size cfg)])"
    using h by (intro c [THEN conjunct1]) (elim conjE, assumption)+
  show "unat (capacity cfg * ucast (blk_size cfg) - p) div unat (blk_size cfg) * unat (blk_size cfg)
           = unat (capacity cfg * ucast (blk_size cfg) - p)"
    using h by (intro c [THEN conjunct2]) (elim conjE, assumption)+
qed

text \<open>The theorem at \<open>disk8\<close>, whose end is 4096: a read at 4096 returns 0, a read at 4097
  fails, and a read of 4096 bytes at 3072 returns 1024 with the sectors 6 and 7 copied to
  the offsets 0 and 512 of the buffer.\<close>

theorem vioblk_readat_cases_witness:
  "vioblk_readat disk8 numbered_device 4096 False 512 = Inr (Val 0, [])
 \<and> vioblk_readat disk8 numbered_device 4097 False 512 = Inr (Err EINVAL, [])
 \<and> vioblk_readat disk8 numbered_device 3072 False 4096
     = Inr (Val 1024, [(0, replicate 512 6), (512, replicate 512 7)])"
proof -
  have e: "capacity disk8 * ucast (blk_size disk8) = 4096" by (simp add: disk8_def)
  have one: "vioblk_readat disk8 numbered_device 4096 False 512 = Inr (Val 0, [])"
    using vioblk_readat_cases [of 4096 disk8 numbered_device False 512] e by simp
  have two: "vioblk_readat disk8 numbered_device 4097 False 512 = Inr (Err EINVAL, [])"
    using vioblk_readat_cases [of 4097 disk8 numbered_device False 512] e by simp
  have b: "unat (blk_size disk8) = 512" by (simp add: disk8_def)
  have h: "(3072::u64) < capacity disk8 * ucast (blk_size disk8) \<and> \<not> False \<and> 0 <s (4096::u64)
      \<and> capacity disk8 * ucast (blk_size disk8) < 3072 + 4096
      \<and> unat (blk_size disk8) dvd VIOBLK_BLKSZ
      \<and> unat (blk_size disk8) dvd unat (3072::u64)
      \<and> unat (capacity disk8 * ucast (blk_size disk8) - 3072) < 2 ^ 31
      \<and> (\<forall>i < unat (capacity disk8 * ucast (blk_size disk8) - 3072) div unat (blk_size disk8).
               fst (numbered_device (3072 div ucast (blk_size disk8) + of_nat i)) AND VIRTIO_BLK_S_IOERR = 0
             \<and> fst (numbered_device (3072 div ucast (blk_size disk8) + of_nat i)) AND VIRTIO_BLK_S_UNSUPP = 0)"
    by (simp add: e b numbered_device_def word_sless_alt)
  have n: "unat (capacity disk8 * ucast (blk_size disk8) - 3072) div unat (blk_size disk8) = 2"
    by (simp add: e b)
  have up: "[0..<2] = [0, 1]" by (simp add: upt_rec)
  have three: "vioblk_readat disk8 numbered_device 3072 False 4096
     = Inr (Val 1024, [(0, replicate 512 6), (512, replicate 512 7)])"
    using vioblk_readat_cases [of 3072 disk8 numbered_device False 4096] h
    by (simp only: n up e b) (simp add: numbered_device_def disk8_def up map_replicate_const)
  from one two three show ?thesis by blast
qed

text \<open>
  C3 as stated fails at \<open>disk8\<close> for a position that is not block-aligned: a read of 512
  bytes at 3996 crosses the end at 4096 and returns the clamped count 100, capacity minus
  position, but no byte is transferred (\<open>numBlocks\<close> is \<open>100 / 512 = 0\<close>).
\<close>

theorem vioblk_readat_unaligned:
  "vioblk_readat disk8 numbered_device 3996 False 512 = Inr (Val 100, [])"
  by code_simp

section \<open>ktfs.c: deleting a file\<close>

lemma rd_wr_same: "rd (wr b off bytes) off (length bytes) = bytes"
  by (rule nth_equalityI) (simp_all add: rd_def wr_def)

lemma rd_wr_disjoint:
  "off' + n \<le> off \<or> off + length bytes \<le> off' \<Longrightarrow> rd (wr b off bytes) off' n = rd b off' n"
  by (rule nth_equalityI) (auto simp: rd_def wr_def)

lemma length_rd: "length (rd b off n) = n"
  by (simp add: rd_def)

lemma dir_slot_wr_same: "length bytes = 32 \<Longrightarrow> dir_slot (wr b (j * 32) bytes) j = bytes"
  using rd_wr_same [of b "j * 32" bytes] by (simp add: dir_slot_def)

lemma dir_slot_wr_other:
  "length bytes = 32 \<Longrightarrow> j \<noteq> k \<Longrightarrow> dir_slot (wr b (j * 32) bytes) k = dir_slot b k"
  unfolding dir_slot_def by (rule rd_wr_disjoint) (simp, arith)

lemma length_dir_slot: "length (dir_slot b j) = 32"
  by (simp add: dir_slot_def length_rd)

lemma unat_ucast_size: "unat (ucast (sz :: u32) :: u64) = unat sz"
  by (simp add: unsigned_ucast_eq take_bit_nat_eq_self
        order_less_trans [OF unsigned_less [of sz, where ?'a = nat]])

lemma last_indices:
  fixes sz :: u32
  assumes "n = unat sz div 32" and "1 \<le> n"
  shows "unat (((ucast sz :: u64) div 32 - 1) div 16) = (n - 1) div 16"
    and "unat (((ucast sz :: u64) div 32 - 1) mod 16) = (n - 1) mod 16"
proof -
  have b: "unat ((ucast sz :: u64) div 32) = n"
    using assms unat_ucast_size [of sz] by (simp add: unat_div)
  have c: "unat ((ucast sz :: u64) div 32 - 1) = n - 1"
    using b assms(2) by (simp add: unat_sub word_le_nat_alt)
  show "unat (((ucast sz :: u64) div 32 - 1) div 16) = (n - 1) div 16"
    using c by (simp add: unat_div)
  show "unat (((ucast sz :: u64) div 32 - 1) mod 16) = (n - 1) mod 16"
    using c by (simp add: unat_mod)
qed

text \<open>
  The swap step for a directory of \<open>n\<close> files, \<open>1 \<le> n \<le> 64\<close>: the slot of the last entry
  is zeroed when the entry found lies under another direct pointer than the last entry, and
  keeps what it held when both lie under the same one.
\<close>

lemma swap_dentry_last_slot:
  assumes n: "n = unat (i_size (root_dir_inode fs)) div 32" "1 \<le> n" "n \<le> 64"
  shows "\<exists>fs'. swap_dentry blkidx dentryidx fs = Inr fs' \<and>
           dir_slot (cache fs' (dir_block fs' ((n - 1) div 16))) ((n - 1) mod 16) =
             (if blkidx = (n - 1) div 16
              then dir_slot (cache fs (dir_block fs ((n - 1) div 16))) ((n - 1) mod 16)
              else replicate KTFS_DENSZ 0)"
proof -
  have lt: "(n - 1) div 16 < 4" using n by arith
  note li = last_indices [OF n(1) n(2)]
  show ?thesis
  proof (cases "blkidx = (n - 1) div 16")
    case True
    then show ?thesis
      using lt
      by (cases "dentryidx = (n - 1) mod 16")
         (simp_all add: swap_dentry_def Let_def li put_block_def dir_block_def global_datablock_0_def
            dir_slot_wr_same dir_slot_wr_other length_dir_slot)
  next
    case False
    then show ?thesis
      using lt
      by (simp add: swap_dentry_def Let_def li put_block_def dir_block_def global_datablock_0_def
            dir_slot_wr_same dir_slot_wr_other length_dir_slot)
  qed
qed

text \<open>
  C7. Swap-delete of the directory entry, with the last entry's slot zeroed also when the
  deleted entry and the last entry lie in the same directory block. The code does not do
  that: on the volume \<open>one_file_fs\<close>, whose directory holds the single file \<open>a\<close>, deleting
  \<open>a\<close> returns 0 and brings the size of the root directory from 32 to 0, but the slot of
  the entry still holds the entry of \<open>a\<close>, it is not zeroed, and a search of the directory
  for \<open>a\<close> still finds it.
\<close>

theorem ktfs_delete_same_block_keeps_entry:
  "(case ktfs_delete (Some [97]) one_file_fs of
      Inl p \<Rightarrow> False
    | Inr (r, fs') \<Rightarrow>
        r = Val 0 \<and> i_size (root_dir_inode one_file_fs) = 32 \<and> i_size (root_dir_inode fs') = 0
        \<and> dir_slot (cache fs' (dir_block fs' 0)) 0 = entry_a
        \<and> dir_slot (cache fs' (dir_block fs' 0)) 0 \<noteq> replicate KTFS_DENSZ 0
        \<and> find_dentry [97] fs' = Some (0, 0, entry_a))"
  by code_simp

section \<open>ktfs.c: the set-end command\<close>

subsection \<open>The bitmap\<close>

section \<open>bitmap\<close>


















subsection \<open>One block added to a file\<close>

lemma took_super: "took n fs fs' \<Longrightarrow> super_blk fs' = super_blk fs"
  by (simp add: took_def)



lemma took_bitmap_size: "took n fs fs' \<Longrightarrow> bitmap_size fs' = bitmap_size fs"
  by (simp add: took_def bitmap_size_def)








lemma same_shape_trans: "same_shape a b \<Longrightarrow> same_shape b c \<Longrightarrow> same_shape a c"
  by (simp add: same_shape_def)























lemma installed_set_size_right:
  "installed ks fs fs' ino (file_inode (set_size v fio)) = installed ks fs fs' ino (file_inode fio)"
  by (simp add: installed_def set_size_def)

subsection \<open>The loop\<close>


















subsection \<open>The entries of the blocks of block numbers\<close>

text \<open>The block added as block 4 is entry 0 of the new indirect block; the block added
  as block 132 is entry 0 of a new indirect block, which is entry 0 of the new
  double-indirect block.\<close>

lemma dec32_enc32: "dec32 (enc32 v) = v"
proof (rule bit_word_eqI)
  fix n :: nat
  assume n: "n < LENGTH(32)"
  consider "n < 8" | "8 \<le> n" "n < 16" | "16 \<le> n" "n < 24" | "24 \<le> n" "n < 32"
    using n by fastforce
  then show "bit (dec32 (enc32 v)) n = bit v n"
  proof cases
    case 1
    then show ?thesis by (simp add: dec32_def enc32_def bit_simps)
  next
    case 2
    then show ?thesis by (auto simp: dec32_def enc32_def bit_simps)
  next
    case 3
    then show ?thesis by (auto simp: dec32_def enc32_def bit_simps)
  next
    case 4
    then show ?thesis by (auto simp: dec32_def enc32_def bit_simps)
  qed
qed

lemma get_set_ptr: "get_ptr (set_ptr bn k v fs) bn k = v"
proof -
  have l: "length (enc32 v) = 4" by (simp add: enc32_def)
  have "rd (wr (cache fs bn) (4 * k) (enc32 v)) (4 * k) 4 = enc32 v"
    using rd_wr_same [of "cache fs bn" "4 * k" "enc32 v"] by (simp only: l)
  then show ?thesis
    by (simp add: get_ptr_def set_ptr_def put_block_def dec32_enc32)
qed

lemma gd0_set_ptr: "global_datablock_0 (set_ptr bn k v fs) = global_datablock_0 fs"
  by (simp add: global_datablock_0_def set_ptr_def put_block_def)

lemma crossing_indirect:
  assumes "add_new_inode_datablk fs fio 3 = Inr (Val 1, fs', fio')"
  shows "\<exists>a fs1 b fs2.
           allocate_open_block fs = (Some a, fs1)
           \<and> allocate_open_block (fst (set_indirect a fs1 fio)) = (Some b, fs2)
           \<and> i_indirect (file_inode fio') = of_nat a
           \<and> get_ptr fs' (unat (i_indirect (file_inode fio')) + global_datablock_0 fs') 0 = of_nat b"
proof -
  have ai: "add_indirect_blk fs fio 3 = Inr (Val 1, fs', fio')"
    using assms by (simp add: add_new_inode_datablk_def)
  obtain r fs1 where al: "allocate_open_block fs = (r, fs1)" by (cases "allocate_open_block fs")
  show ?thesis
  proof (cases r)
    case None
    then show ?thesis using ai al by (simp add: add_indirect_blk_def)
  next
    case (Some a)
    obtain fs1' fio1 where si: "set_indirect a fs1 fio = (fs1', fio1)" by (cases "set_indirect a fs1 fio")
    have ind: "i_indirect (file_inode fio1) = of_nat a"
      using si by (auto simp: set_indirect_def Let_def)
    obtain r2 fs2 where al2: "allocate_open_block fs1' = (r2, fs2)" by (cases "allocate_open_block fs1'")
    show ?thesis
    proof (cases r2)
      case None
      then show ?thesis using ai al Some si al2 by (simp add: add_indirect_blk_def Let_def)
    next
      case b: (Some b)
      have "fio' = fio1" and "fs' = set_ptr (unat (i_indirect (file_inode fio1)) + global_datablock_0 fs1') 0 (of_nat b) fs2"
        using ai al Some si al2 b by (auto simp: add_indirect_blk_def Let_def)
      moreover have "global_datablock_0 fs2 = global_datablock_0 fs1'"
        using al2 b by (auto simp: allocate_open_block_def global_datablock_0_def put_block_def split: option.splits)
      ultimately show ?thesis
        using al Some si al2 b ind by (simp add: get_set_ptr gd0_set_ptr)
    qed
  qed
qed


lemma gd0_alloc: "allocate_open_block fs = (r, fs1) \<Longrightarrow> global_datablock_0 fs1 = global_datablock_0 fs"
  by (auto simp: allocate_open_block_def global_datablock_0_def put_block_def split: option.splits)

lemma crossing_dindirect:
  assumes wf: "wf_file fio"
    and res: "add_new_inode_datablk fs fio 131 = Inr (Val 1, fs', fio')"
  shows "\<exists>a fs1 c fs2 d fs3.
           allocate_open_block fs = (Some a, fs1)
           \<and> allocate_open_block (fst (set_dindirect 0 a fs1 fio)) = (Some c, fs2)
           \<and> allocate_open_block
                (set_ptr (unat (word_of_nat a :: u32) + global_datablock_0 fs) 0 (of_nat c) fs2)
                = (Some d, fs3)
           \<and> i_dindirect (file_inode fio') ! 0 = of_nat a
           \<and> get_ptr fs' (unat (word_of_nat c :: u32) + global_datablock_0 fs') 0 = of_nat d"
proof -
  have ad: "add_dindirect_blk fs fio 131 = Inr (Val 1, fs', fio')"
    using res by (simp add: add_new_inode_datablk_def)
  obtain r fs1 where al: "allocate_open_block fs = (r, fs1)" by (cases "allocate_open_block fs")
  show ?thesis
  proof (cases r)
    case None
    then show ?thesis using ad al by (simp add: add_dindirect_blk_def dindirect_root_def)
  next
    case (Some a)
    obtain fs1' fio1 where sd: "set_dindirect 0 a fs1 fio = (fs1', fio1)"
      by (cases "set_dindirect 0 a fs1 fio")
    have root: "dindirect_root fs fio 0 = Inr (fs1', fio1)"
      using al Some sd by (simp add: dindirect_root_def)
    have ent: "dindirect_entry fs1' fio1 0 = Inr (Val 1, fs', fio')"
      using ad root by (simp add: add_dindirect_blk_def)
    have d0: "i_dindirect (file_inode fio1) ! 0 = of_nat a"
      using sd wf by (auto simp: set_dindirect_def Let_def wf_file_def)
    have g1: "global_datablock_0 fs1' = global_datablock_0 fs"
      using sd gd0_alloc [OF al]
      by (auto simp: set_dindirect_def Let_def write_inode_to_disk_def put_block_def global_datablock_0_def)
    obtain r2 fs2 where al2: "allocate_open_block fs1' = (r2, fs2)" by (cases "allocate_open_block fs1'")
    show ?thesis
    proof (cases r2)
      case None
      then show ?thesis using ent al2 by (simp add: dindirect_entry_def Let_def)
    next
      case c: (Some c)
      define fs2' where "fs2' = set_ptr (unat (word_of_nat a :: u32) + global_datablock_0 fs) 0 (of_nat c) fs2"
      have g2: "global_datablock_0 fs2' = global_datablock_0 fs"
        using gd0_alloc [OF al2] g1 by (simp add: fs2'_def gd0_set_ptr)
      have num: "get_ptr fs2' (unat (word_of_nat a :: u32) + global_datablock_0 fs) 0 = of_nat c"
        by (simp add: fs2'_def get_set_ptr)
      obtain r3 fs3 where al3: "allocate_open_block fs2' = (r3, fs3)" by (cases "allocate_open_block fs2'")
      show ?thesis
      proof (cases r3)
        case None
        then show ?thesis using ent al2 c al3
          by (simp add: dindirect_entry_def Let_def d0 g1 fs2'_def [symmetric] num g2)
      next
        case d: (Some d)
        have "fio' = fio1"
          and "fs' = set_ptr (unat (word_of_nat c :: u32) + global_datablock_0 fs) 0 (of_nat d) fs3"
          using ent al2 c al3 d
          by (auto simp: dindirect_entry_def Let_def d0 g1 fs2'_def [symmetric] num g2)
        moreover have "global_datablock_0 fs3 = global_datablock_0 fs"
          using gd0_alloc [OF al3] g2 by simp
        ultimately show ?thesis
          using al Some sd al2 c al3 d d0 fs2'_def
          by (simp add: get_set_ptr gd0_set_ptr)
      qed
    qed
  qed
qed

subsection \<open>The command\<close>






end
